theory Spec2Isabelle
  imports Main
begin

section \<open>Strings and dates\<close>

text \<open>
  A Python \<open>str\<close> is modelled as a \<open>string\<close> whose characters are code points below 256,
  so \<open>length\<close> is Python's \<open>len\<close>.  The character classes below are the ones Python
  applies to those code points.
\<close>

definition is_decimal :: "char \<Rightarrow> bool" where
  \<comment> \<open>The decimal digits \<open>0\<close> .. \<open>9\<close>: what \<open>\d\<close> matches.\<close>
  "is_decimal c = (c \<in> set ''0123456789'')"

definition isdigit_char :: "char \<Rightarrow> bool" where
  \<comment> \<open>\<open>str.isdigit\<close> on one character: the decimal digits and the superscript digits
      two, three and one (code points 0xB2, 0xB3, 0xB9).\<close>
  "isdigit_char c = (is_decimal c \<or> c \<in> set [CHR 0xB2, CHR 0xB3, CHR 0xB9])"

definition isdigit :: "string \<Rightarrow> bool" where
  \<comment> \<open>\<open>s.isdigit()\<close>: at least one character, and every character a digit.\<close>
  "isdigit s = (s \<noteq> [] \<and> list_all isdigit_char s)"

definition isspace_char :: "char \<Rightarrow> bool" where
  \<comment> \<open>The characters \<open>str.strip()\<close> removes.\<close>
  "isspace_char c = (c \<in> set [CHR 0x09, CHR 0x0A, CHR 0x0B, CHR 0x0C, CHR 0x0D,
                                 CHR 0x1C, CHR 0x1D, CHR 0x1E, CHR 0x1F, CHR 0x20,
                                 CHR 0x85, CHR 0xA0])"

definition strip :: "string \<Rightarrow> string" where
  "strip s = rev (dropWhile isspace_char (rev (dropWhile isspace_char s)))"

definition digit_val :: "char \<Rightarrow> nat" where
  "digit_val c = of_char c - 48"

definition digit_char :: "nat \<Rightarrow> char" where
  "digit_char n = ''0123456789'' ! (n mod 10)"

definition num_val :: "string \<Rightarrow> nat" where
  \<comment> \<open>\<open>int(s)\<close> for a string of decimal digits.\<close>
  "num_val s = foldl (\<lambda>a c. 10 * a + digit_val c) 0 s"

definition pad2 :: "nat \<Rightarrow> string" where
  "pad2 n = [digit_char (n div 10), digit_char n]"

definition pad4 :: "nat \<Rightarrow> string" where
  "pad4 n = [digit_char (n div 1000), digit_char (n div 100), digit_char (n div 10), digit_char n]"

record date =
  d_year :: nat
  d_month :: nat
  d_day :: nat

definition is_leap :: "nat \<Rightarrow> bool" where
  "is_leap y = (y mod 4 = 0 \<and> (0 < y mod 100 \<or> y mod 400 = 0))"

definition days_in_month :: "nat \<Rightarrow> nat \<Rightarrow> nat" where
  "days_in_month y m =
     (if m = 2 then (if is_leap y then 29 else 28)
      else if m \<in> set [4, 6, 9, 11] then 30 else 31)"

definition valid_date :: "nat \<Rightarrow> nat \<Rightarrow> nat \<Rightarrow> bool" where
  \<comment> \<open>The dates \<open>datetime.date(y, m, d)\<close> accepts.\<close>
  "valid_date y m d = (1 \<le> y \<and> y \<le> 9999 \<and> 1 \<le> m \<and> m \<le> 12 \<and> 1 \<le> d \<and> d \<le> days_in_month y m)"

fun split_at_dot :: "string \<Rightarrow> (string \<times> string) option" where
  "split_at_dot [] = None"
| "split_at_dot (c # cs) =
     (if c = CHR ''.'' then Some ([], cs)
      else (case split_at_dot cs of None \<Rightarrow> None | Some (a, b) \<Rightarrow> Some (c # a, b)))"

definition match_d :: "string \<Rightarrow> bool" where
  \<comment> \<open>The directive \<open>%d\<close>: \<open>3[0-1]|[1-2]\d|0[1-9]|[1-9]| [1-9]\<close>.\<close>
  "match_d s = (case s of
       [a] \<Rightarrow> a \<in> set ''123456789''
     | [a, b] \<Rightarrow> (a = CHR ''3'' \<and> b \<in> set ''01'') \<or> (a \<in> set ''12'' \<and> is_decimal b)
                  \<or> (a = CHR ''0'' \<and> b \<in> set ''123456789'')
                  \<or> (a = CHR '' '' \<and> b \<in> set ''123456789'')
     | _ \<Rightarrow> False)"

definition match_m :: "string \<Rightarrow> bool" where
  \<comment> \<open>The directive \<open>%m\<close>: \<open>1[0-2]|0[1-9]|[1-9]\<close>.\<close>
  "match_m s = (case s of
       [a] \<Rightarrow> a \<in> set ''123456789''
     | [a, b] \<Rightarrow> (a = CHR ''1'' \<and> b \<in> set ''012'') \<or> (a = CHR ''0'' \<and> b \<in> set ''123456789'')
     | _ \<Rightarrow> False)"

definition match_Y :: "string \<Rightarrow> bool" where
  \<comment> \<open>The directive \<open>%Y\<close>: \<open>\d\d\d\d\<close>.\<close>
  "match_Y s = (length s = 4 \<and> list_all is_decimal s)"

definition strptime_dmy :: "string \<Rightarrow> date option" where
  \<comment> \<open>\<open>datetime.datetime.strptime(s, '%d.%m.%Y')\<close>; \<open>None\<close> is \<open>ValueError\<close>.  The day is the text
      before the first dot, the month the text up to the second, the year the rest.\<close>
  "strptime_dmy s =
     (case split_at_dot s of
        None \<Rightarrow> None
      | Some (ds, rest) \<Rightarrow>
          (case split_at_dot rest of
             None \<Rightarrow> None
           | Some (ms, ys) \<Rightarrow>
               (if match_d ds \<and> match_m ms \<and> match_Y ys
                   \<and> valid_date (num_val ys) (num_val ms) (num_val (strip ds))
                then Some \<lparr>d_year = num_val ys, d_month = num_val ms, d_day = num_val (strip ds)\<rparr>
                else None)))"

definition isoformat :: "date \<Rightarrow> string" where
  \<comment> \<open>\<open>date.isoformat()\<close>: the year written with four digits on every platform.\<close>
  "isoformat d = pad4 (d_year d) @ ''-'' @ pad2 (d_month d) @ ''-'' @ pad2 (d_day d)"

datatype libc = PadsYear | PlainYear
  \<comment> \<open>How the platform's \<open>strftime\<close> writes \<open>%Y\<close> for a year below 1000: with four digits, or
      without leading zeros.\<close>

definition plain_nat :: "nat \<Rightarrow> string" where
  \<comment> \<open>A number below 10000 in decimal, without leading zeros.\<close>
  "plain_nat n =
     (if n < 10 then [digit_char n]
      else if n < 100 then [digit_char (n div 10), digit_char n]
      else if n < 1000 then [digit_char (n div 100), digit_char (n div 10), digit_char n]
      else pad4 n)"

definition strftime_ymd :: "libc \<Rightarrow> date \<Rightarrow> string" where
  \<comment> \<open>\<open>strftime('%Y-%m-%d')\<close> on the given platform.\<close>
  "strftime_ymd lc d =
     (case lc of PadsYear \<Rightarrow> pad4 (d_year d) | PlainYear \<Rightarrow> plain_nat (d_year d))
     @ ''-'' @ pad2 (d_month d) @ ''-'' @ pad2 (d_day d)"

section \<open>The scraper\<close>

record case_rec =
  case_number :: string
  case_date :: string
  inn :: string

datatype lookup = Found string | NoSuchElement | Broken
  \<comment> \<open>\<open>find_element\<close>: the text of the element found, \<open>NoSuchElementException\<close>, or any
      other exception of the automation layer.\<close>

record cell =
  date_element :: lookup  \<comment> \<open>the first descendant whose text contains a dot\<close>
  case_link :: lookup  \<comment> \<open>the first descendant link to a case card\<close>

type_synonym row = "cell list"  \<comment> \<open>\<open>row.find_elements(By.TAG_NAME, "td")\<close>\<close>

datatype log_entry =
    InfoDriverInit | ErrorDriverInit
  | InfoNavigate | InfoInnEntered string | InfoSearchClicked | InfoResultsLoaded
  | InfoExtracted string string string
  | WarnDateParse string string
  | WarnRowMissing nat
  | WarnRowError nat
  | ErrorTimeout | ErrorNoSuchElement | ErrorWebDriver | ErrorUnexpected
  | InfoDriverClosed

record loop_state =
  cases_data :: "case_rec list"
  v_case_date_str :: "string option"  \<comment> \<open>the local \<open>case_date_str\<close>; \<open>None\<close> while unbound\<close>
  v_case_number :: "string option"  \<comment> \<open>the local \<open>case_number\<close>; \<open>None\<close> while unbound\<close>
  log :: "log_entry list"

definition add_log :: "log_entry \<Rightarrow> loop_state \<Rightarrow> loop_state" where
  "add_log e st = st\<lparr>log := log st @ [e]\<rparr>"

definition parse_and_append :: "libc \<Rightarrow> string \<Rightarrow> nat \<Rightarrow> loop_state \<Rightarrow> loop_state" where
  \<comment> \<open>The statements after the \<open>if len(cells) >= 4\<close> block, which run for every row.  Reading an
      unbound local raises \<open>UnboundLocalError\<close>, which \<open>except Exception\<close> catches.\<close>
  "parse_and_append lc inn_arg i st =
     (case v_case_date_str st of
        None \<Rightarrow> add_log (WarnRowError (Suc i)) st
      | Some ds \<Rightarrow>
          (case v_case_number st of
             None \<Rightarrow> add_log (WarnRowError (Suc i)) st
           | Some num \<Rightarrow>
               (case strptime_dmy ds of
                  None \<Rightarrow> add_log (WarnDateParse ds num) st
                | Some d \<Rightarrow>
                    (if num \<noteq> [] \<and> strftime_ymd lc d \<noteq> []
                     then add_log (InfoExtracted num (strftime_ymd lc d) inn_arg)
                            (st\<lparr>cases_data := cases_data st
                                  @ [\<lparr>case_number = num, case_date = strftime_ymd lc d, inn = inn_arg\<rparr>]\<rparr>)
                     else st))))"

definition process_row :: "libc \<Rightarrow> string \<Rightarrow> nat \<Rightarrow> row \<Rightarrow> loop_state \<Rightarrow> loop_state" where
  \<comment> \<open>The body of the loop over \<open>result_rows\<close>, for the row with index \<open>i\<close>.\<close>
  "process_row lc inn_arg i r st =
     (if 4 \<le> length r then
        (case date_element (r ! 0) of
           NoSuchElement \<Rightarrow> add_log (WarnRowMissing (Suc i)) st
         | Broken \<Rightarrow> add_log (WarnRowError (Suc i)) st
         | Found t \<Rightarrow>
             (let st1 = st\<lparr>v_case_date_str := Some (strip t)\<rparr> in
              case case_link (r ! 0) of
                NoSuchElement \<Rightarrow> add_log (WarnRowMissing (Suc i)) st1
              | Broken \<Rightarrow> add_log (WarnRowError (Suc i)) st1
              | Found n \<Rightarrow> parse_and_append lc inn_arg i (st1\<lparr>v_case_number := Some (strip n)\<rparr>)))
      else parse_and_append lc inn_arg i st)"

fun scrape_rows :: "libc \<Rightarrow> string \<Rightarrow> int \<Rightarrow> nat \<Rightarrow> row list \<Rightarrow> loop_state \<Rightarrow> loop_state" where
  "scrape_rows lc inn_arg max_results i [] st = st"
| "scrape_rows lc inn_arg max_results i (r # rs) st =
     (if max_results \<le> int (length (cases_data st)) then st
      else scrape_rows lc inn_arg max_results (Suc i) rs (process_row lc inn_arg i r st))"

definition init_loop :: loop_state where
  "init_loop = \<lparr>cases_data = [], v_case_date_str = None, v_case_number = None, log = []\<rparr>"

datatype stage = Navigate | WaitInput | TypeInn | WaitButton | Click | WaitResults | FindRows

datatype failure = TimeoutException | NoSuchElementException | WebDriverException | OtherException

datatype site = Fails stage failure | Loaded "row list"
  \<comment> \<open>What the site does during one query: a step before the loop raises, or the result
      rows are found.\<close>

fun stage_log :: "string \<Rightarrow> stage \<Rightarrow> log_entry list" where
  \<comment> \<open>The messages logged before the given step is reached.\<close>
  "stage_log inn_arg Navigate = []"
| "stage_log inn_arg WaitInput = [InfoNavigate]"
| "stage_log inn_arg TypeInn = [InfoNavigate]"
| "stage_log inn_arg WaitButton = [InfoNavigate, InfoInnEntered inn_arg]"
| "stage_log inn_arg Click = [InfoNavigate, InfoInnEntered inn_arg]"
| "stage_log inn_arg WaitResults = [InfoNavigate, InfoInnEntered inn_arg, InfoSearchClicked]"
| "stage_log inn_arg FindRows =
     [InfoNavigate, InfoInnEntered inn_arg, InfoSearchClicked, InfoResultsLoaded]"

fun failure_log :: "failure \<Rightarrow> log_entry" where
  "failure_log TimeoutException = ErrorTimeout"
| "failure_log NoSuchElementException = ErrorNoSuchElement"
| "failure_log WebDriverException = ErrorWebDriver"
| "failure_log OtherException = ErrorUnexpected"

record scraper =
  driver :: "nat option"  \<comment> \<open>\<open>self.driver\<close>: the number of the session it holds\<close>
  opened :: nat  \<comment> \<open>how many browser sessions have been started so far\<close>
  live :: "nat list"  \<comment> \<open>the sessions started and not yet quit\<close>

definition initialize_webdriver :: "bool \<Rightarrow> scraper \<Rightarrow> scraper \<times> log_entry list" where
  \<comment> \<open>\<open>_initialize_webdriver\<close>; the flag says whether \<open>webdriver.Chrome\<close> starts.\<close>
  "initialize_webdriver init_ok w =
     (if init_ok
      then (w\<lparr>driver := Some (opened w), opened := Suc (opened w), live := opened w # live w\<rparr>,
            [InfoDriverInit])
      else (w\<lparr>driver := None\<rparr>, [ErrorDriverInit]))"

definition run_query :: "libc \<Rightarrow> site \<Rightarrow> string \<Rightarrow> int \<Rightarrow> case_rec list \<times> log_entry list" where
  \<comment> \<open>The \<open>try\<close> block on a live session.\<close>
  "run_query lc page inn_arg max_results =
     (case page of
        Fails s e \<Rightarrow> ([], stage_log inn_arg s @ [failure_log e])
      | Loaded rows \<Rightarrow>
          (let st = scrape_rows lc inn_arg max_results 0 rows init_loop
           in (cases_data st, stage_log inn_arg FindRows @ log st)))"

definition scrape_arbitr_cases ::
  "libc \<Rightarrow> bool \<Rightarrow> site \<Rightarrow> scraper \<Rightarrow> string \<Rightarrow> int \<Rightarrow> case_rec list \<times> scraper \<times> log_entry list" where
  \<comment> \<open>A command sent to a session that has been quit raises; the exception is caught by one
      of the last two handlers, which log an error and differ in nothing else.\<close>
  "scrape_arbitr_cases lc init_ok page w inn_arg max_results =
     (let (w1, l1) = (if driver w = None then initialize_webdriver init_ok w else (w, [])) in
      case driver w1 of
        None \<Rightarrow> ([], w1, l1)
      | Some d \<Rightarrow>
          (let (cs, l2) = (if d \<in> set (live w1) then run_query lc page inn_arg max_results
                           else ([], [ErrorUnexpected]))
           in (cs, w1\<lparr>live := removeAll d (live w1)\<rparr>, l1 @ l2 @ [InfoDriverClosed])))"

definition new_scraper :: scraper where
  \<comment> \<open>\<open>ArbitrScraper()\<close> on a machine with no browser session.\<close>
  "new_scraper = \<lparr>driver = None, opened = 0, live = []\<rparr>"

section \<open>The database\<close>

datatype db_fault = NoFault | ConnectFault | QueryFault
  \<comment> \<open>What the database does during one call of a \<open>DBManager\<close> method: it serves the call,
      \<open>psycopg2.connect\<close> raises \<open>OperationalError\<close> (so \<open>_get_connection\<close> returns \<open>None\<close>), or
      the statement raises a \<open>psycopg2.Error\<close>.\<close>

record db_row =
  row_number :: string
  row_date :: date
  row_inn :: string

type_synonym store = "db_row list"  \<comment> \<open>the rows of \<open>arbitration_cases\<close>, in table order\<close>

definition date_in :: "string \<Rightarrow> date option" where
  \<comment> \<open>Modelled from the spec: the schema script \<open>init_db.sql\<close> is not among the sources.  The
      column \<open>case_date\<close> holds a calendar date and the text bound to it is an ISO-8601 date
      \<open>YYYY-MM-DD\<close>; \<open>None\<close> is the error the database raises for any other text.\<close>
  "date_in s =
     (if length s = 10 \<and> s ! 4 = CHR ''-'' \<and> s ! 7 = CHR ''-''
         \<and> list_all is_decimal (take 4 s) \<and> list_all is_decimal (take 2 (drop 5 s))
         \<and> list_all is_decimal (drop 8 s)
         \<and> valid_date (num_val (take 4 s)) (num_val (take 2 (drop 5 s))) (num_val (drop 8 s))
      then Some \<lparr>d_year = num_val (take 4 s), d_month = num_val (take 2 (drop 5 s)),
                  d_day = num_val (drop 8 s)\<rparr>
      else None)"

definition date_le :: "date \<Rightarrow> date \<Rightarrow> bool" where
  "date_le a b =
     (d_year a < d_year b
      \<or> (d_year a = d_year b
          \<and> (d_month a < d_month b \<or> (d_month a = d_month b \<and> d_day a \<le> d_day b))))"

definition sql_insert :: "store \<Rightarrow> string \<Rightarrow> string \<Rightarrow> string \<Rightarrow> store option" where
  \<comment> \<open>Modelled from the spec: \<open>case_number\<close> carries the unique constraint that
      \<open>ON CONFLICT (case_number) DO NOTHING\<close> names.  \<open>None\<close> is a \<open>psycopg2.Error\<close>.\<close>
  "sql_insert st cn cd i =
     (case date_in cd of
        None \<Rightarrow> None
      | Some d \<Rightarrow>
          Some (if cn \<in> set (map row_number st) then st
                else st @ [\<lparr>row_number = cn, row_date = d, row_inn = i\<rparr>]))"

definition create_table :: "bool \<Rightarrow> db_fault \<Rightarrow> bool" where
  \<comment> \<open>The flag says whether the SQL script exists.  The rows of the table are not touched.\<close>
  "create_table script_exists f =
     (if script_exists then (case f of NoFault \<Rightarrow> True | ConnectFault \<Rightarrow> False | QueryFault \<Rightarrow> False)
      else False)"

definition insert_case :: "db_fault \<Rightarrow> store \<Rightarrow> string \<Rightarrow> string \<Rightarrow> string \<Rightarrow> bool \<times> store" where
  "insert_case f st cn cd i =
     (case f of
        ConnectFault \<Rightarrow> (False, st)
      | QueryFault \<Rightarrow> (False, st)
      | NoFault \<Rightarrow>
          (case sql_insert st cn cd i of
             None \<Rightarrow> (False, st)
           | Some st' \<Rightarrow> (True, st')))"

definition row_to_dict :: "db_row \<Rightarrow> case_rec" where
  \<comment> \<open>\<open>dict(zip(columns, row_list))\<close>, the date already replaced by its \<open>isoformat()\<close>.\<close>
  "row_to_dict r = \<lparr>case_number = row_number r, case_date = isoformat (row_date r), inn = row_inn r\<rparr>"

definition get_all_cases_as_dicts :: "db_fault \<Rightarrow> store \<Rightarrow> case_rec list" where
  "get_all_cases_as_dicts f st =
     (case f of
        ConnectFault \<Rightarrow> []
      | QueryFault \<Rightarrow> []
      | NoFault \<Rightarrow> map row_to_dict st)"

definition upper_letters :: string where
  "upper_letters = ''ABCDEFGHIJKLMNOPQRSTUVWXYZ''"

definition lower_letters :: string where
  "lower_letters = ''abcdefghijklmnopqrstuvwxyz''"

definition ascii_fold :: "char \<Rightarrow> char" where
  \<comment> \<open>A sample case folding, that of the \<open>C\<close> locale: the letters \<open>A\<close> .. \<open>Z\<close> to lower case.\<close>
  "ascii_fold c =
     (case find (\<lambda>p. fst p = c) (zip upper_letters lower_letters) of
        None \<Rightarrow> c
      | Some p \<Rightarrow> snd p)"

fun like_match :: "(char \<Rightarrow> char) \<Rightarrow> string \<Rightarrow> string \<Rightarrow> bool" where
  \<comment> \<open>\<open>text LIKE pattern\<close> and \<open>text ILIKE pattern\<close>: \<open>%\<close> stands for any sequence of
      characters, \<open>_\<close> for any one character, and a backslash makes the next pattern
      character literal.  Two characters are the same when their folds are: the identity
      for \<open>LIKE\<close>, the case folding of the database locale for \<open>ILIKE\<close>.  A pattern that ends
      in a backslash is an error in the database; the patterns built below all end in \<open>%\<close>.\<close>
  "like_match cf [] s = (s = [])"
| "like_match cf (p # ps) s =
     (if p = CHR ''%'' then
        (like_match cf ps s
         \<or> (case s of [] \<Rightarrow> False | c # cs \<Rightarrow> like_match cf (p # ps) cs))
      else if p = CHR ''_'' then
        (case s of [] \<Rightarrow> False | c # cs \<Rightarrow> like_match cf ps cs)
      else if p = CHR 0x5C then
        (case ps of
           [] \<Rightarrow> False
         | q # qs \<Rightarrow>
             (case s of [] \<Rightarrow> False | c # cs \<Rightarrow> cf c = cf q \<and> like_match cf qs cs))
      else (case s of [] \<Rightarrow> False | c # cs \<Rightarrow> cf c = cf p \<and> like_match cf ps cs))"

definition ilike :: "(char \<Rightarrow> char) \<Rightarrow> string \<Rightarrow> string \<Rightarrow> bool" where
  \<comment> \<open>\<open>text ILIKE pattern\<close>, for the case folding of the database locale.\<close>
  "ilike cf pat s = like_match cf pat s"

datatype cond = CaseNumberILike string | InnILike string | DateGe string | DateLe string
  \<comment> \<open>One \<open>AND\<close> clause of the query, with the parameter bound to it.\<close>

definition build_query ::
  "string option \<Rightarrow> string option \<Rightarrow> string option \<Rightarrow> string option \<Rightarrow> cond list" where
  \<comment> \<open>An argument that is \<open>None\<close> or the empty string adds no clause.\<close>
  "build_query case_number_filter inn_filter start_date end_date =
     (case case_number_filter of None \<Rightarrow> []
        | Some s \<Rightarrow> if s = [] then [] else [CaseNumberILike (''%'' @ s @ ''%'')])
     @ (case inn_filter of None \<Rightarrow> []
        | Some s \<Rightarrow> if s = [] then [] else [InnILike (''%'' @ s @ ''%'')])
     @ (case start_date of None \<Rightarrow> [] | Some s \<Rightarrow> if s = [] then [] else [DateGe s])
     @ (case end_date of None \<Rightarrow> [] | Some s \<Rightarrow> if s = [] then [] else [DateLe s])"

fun cond_ok :: "cond \<Rightarrow> bool" where
  \<comment> \<open>Whether the database accepts the parameter.\<close>
  "cond_ok (CaseNumberILike p) = True"
| "cond_ok (InnILike p) = True"
| "cond_ok (DateGe t) = (case date_in t of None \<Rightarrow> False | Some d \<Rightarrow> True)"
| "cond_ok (DateLe t) = (case date_in t of None \<Rightarrow> False | Some d \<Rightarrow> True)"

fun holds :: "(char \<Rightarrow> char) \<Rightarrow> db_row \<Rightarrow> cond \<Rightarrow> bool" where
  "holds cf r (CaseNumberILike p) = ilike cf p (row_number r)"
| "holds cf r (InnILike p) = ilike cf p (row_inn r)"
| "holds cf r (DateGe t) =
     (case date_in t of None \<Rightarrow> False | Some d \<Rightarrow> date_le d (row_date r))"
| "holds cf r (DateLe t) =
     (case date_in t of None \<Rightarrow> False | Some d \<Rightarrow> date_le (row_date r) d)"

definition sql_select :: "(char \<Rightarrow> char) \<Rightarrow> store \<Rightarrow> cond list \<Rightarrow> db_row list option" where
  \<comment> \<open>\<open>SELECT ... WHERE 1=1 AND ...\<close>; \<open>None\<close> is a \<open>psycopg2.Error\<close>.  The query has no
      \<open>ORDER BY\<close>; the rows come in table order.  The first argument is the case folding of
      the database locale.\<close>
  "sql_select cf st cs =
     (if list_all cond_ok cs then Some (filter (\<lambda>r. list_all (holds cf r) cs) st) else None)"

definition get_filtered_cases_as_dicts ::
  "(char \<Rightarrow> char) \<Rightarrow> db_fault \<Rightarrow> store \<Rightarrow> string option \<Rightarrow> string option \<Rightarrow> string option \<Rightarrow> string option
     \<Rightarrow> case_rec list" where
  "get_filtered_cases_as_dicts cf f st case_number_filter inn_filter start_date end_date =
     (case f of
        ConnectFault \<Rightarrow> []
      | QueryFault \<Rightarrow> []
      | NoFault \<Rightarrow>
          (case sql_select cf st (build_query case_number_filter inn_filter start_date end_date) of
             None \<Rightarrow> []
           | Some rows \<Rightarrow> map row_to_dict rows))"

section \<open>The coordinator\<close>

text \<open>
  A run of a coordinator method is the list of its calls to the presentation layer, the
  scraper and the database manager, in order.  Both GUI callbacks are set, as \<open>main.py\<close>
  sets them.
\<close>

datatype status_msg =
    MsgStart string  \<comment> \<open>scraping started for this taxpayer ID\<close>
  | MsgInvalidInn  \<comment> \<open>the validation error\<close>
  | MsgScrapeBegin
  | MsgNoneOrError string  \<comment> \<open>no new cases found for this ID, or an error occurred\<close>
  | MsgFound nat string  \<comment> \<open>this many cases found for this ID\<close>
  | MsgSiteUnavailable  \<comment> \<open>the message of the \<open>except TimeoutException\<close> handler\<close>
  | MsgGuiUpdate
  | MsgSaving
  | MsgInserted nat
  | MsgNothingToSave string
  | MsgDone
  | MsgFiltering
  | MsgFilteredFound nat
  | MsgFilterError
  | MsgExportCsv string
  | MsgNoDataCsv
  | MsgCsvDone string
  | MsgCsvError

datatype event =
    Status status_msg  \<comment> \<open>\<open>_update_status\<close>: the text shown to the user\<close>
  | Scrape string  \<comment> \<open>a call of \<open>scraper.scrape_arbitr_cases\<close>\<close>
  | ShowResults "case_rec list"  \<comment> \<open>a call of \<open>gui_results_updater\<close>\<close>
  | CreateTable  \<comment> \<open>a call of \<open>db_manager.create_table\<close>\<close>
  | InsertCase string string string  \<comment> \<open>a call of \<open>db_manager.insert_case\<close>\<close>

fun is_persistence :: "event \<Rightarrow> bool" where
  "is_persistence CreateTable = True"
| "is_persistence (InsertCase cn cd i) = True"
| "is_persistence e = False"

record env =
  libc :: libc  \<comment> \<open>the platform's \<open>strftime\<close>\<close>
  init_ok :: bool  \<comment> \<open>whether a browser session can be started\<close>
  page :: site  \<comment> \<open>what the site does during the query\<close>
  script_exists :: bool  \<comment> \<open>whether the SQL script is in place\<close>
  db_faults :: "nat \<Rightarrow> db_fault"  \<comment> \<open>the fault met by each database call, in order\<close>

definition valid_inn :: "string \<Rightarrow> bool" where
  \<comment> \<open>The negation of the test \<open>not inn or not inn.isdigit() or len(inn) not in [10, 12]\<close>.\<close>
  "valid_inn s = (s \<noteq> [] \<and> isdigit s \<and> length s \<in> set [10, 12])"

fun insert_all ::
  "(nat \<Rightarrow> db_fault) \<Rightarrow> nat \<Rightarrow> case_rec list \<Rightarrow> store \<Rightarrow> nat \<Rightarrow> event list \<times> store \<times> nat" where
  \<comment> \<open>The loop over \<open>scraped_cases\<close>; the last component is \<open>inserted_count\<close>.\<close>
  "insert_all fs k [] st cnt = ([], st, cnt)"
| "insert_all fs k (c # cs) st cnt =
     (let (ok, st1) = insert_case (fs k) st (case_number c) (case_date c) (inn c);
          (evs, st2, cnt2) = insert_all fs (Suc k) cs st1 (if ok then Suc cnt else cnt)
      in (InsertCase (case_number c) (case_date c) (inn c) # evs, st2, cnt2))"

definition save_cases :: "env \<Rightarrow> store \<Rightarrow> string \<Rightarrow> case_rec list \<Rightarrow> event list \<times> store" where
  \<comment> \<open>Step 4 of \<open>start_scraping\<close>.  \<open>create_table\<close> and \<open>insert_case\<close> catch every database
      error themselves, so the handlers around the loop are not reached by one.\<close>
  "save_cases e st inn_arg scraped_cases =
     (if scraped_cases \<noteq> [] then
        (let created = create_table (script_exists e) (db_faults e 0);
             (evs, st1, inserted_count) = insert_all (db_faults e) 1 scraped_cases st 0
         in ([Status MsgSaving, CreateTable] @ evs @ [Status (MsgInserted inserted_count)], st1))
      else ([Status (MsgNothingToSave inn_arg)], st))"

definition start_scraping ::
  "env \<Rightarrow> scraper \<Rightarrow> store \<Rightarrow> string \<Rightarrow> event list \<times> scraper \<times> store" where
  \<comment> \<open>\<open>scrape_arbitr_cases\<close> returns on every path, so the three handlers around its call
      are not reached.\<close>
  "start_scraping e w st inn_arg =
     (if valid_inn inn_arg then
        (let (scraped_cases, w1, lg) = scrape_arbitr_cases (libc e) (init_ok e) (page e) w inn_arg 10;
             report = (if scraped_cases = [] then MsgNoneOrError inn_arg
                       else MsgFound (length scraped_cases) inn_arg);
             (evs, st1) = save_cases e st inn_arg scraped_cases
         in ([Status (MsgStart inn_arg), Status MsgScrapeBegin, Scrape inn_arg, Status report,
              Status MsgGuiUpdate, ShowResults scraped_cases] @ evs @ [Status MsgDone],
             w1, st1))
      else ([Status (MsgStart inn_arg), Status MsgInvalidInn], w, st))"

definition filter_cases ::
  "(char \<Rightarrow> char) \<Rightarrow> db_fault \<Rightarrow> store \<Rightarrow> string option \<Rightarrow> string option \<Rightarrow> string option \<Rightarrow> string option
     \<Rightarrow> event list" where
  "filter_cases cf f st case_number_filter inn_filter start_date end_date =
     (let filtered_cases =
            get_filtered_cases_as_dicts cf f st case_number_filter inn_filter start_date end_date
      in [Status MsgFiltering, Status (MsgFilteredFound (length filtered_cases)),
          ShowResults filtered_cases])"

section \<open>CSV export\<close>

definition csv_special :: "char \<Rightarrow> bool" where
  \<comment> \<open>The delimiter, the quote character, carriage return and line feed.\<close>
  "csv_special c = (c \<in> set [CHR 0x2C, CHR 0x22, CHR 0x0D, CHR 0x0A])"

definition csv_escape :: "string \<Rightarrow> string" where
  \<comment> \<open>Every quote character doubled.\<close>
  "csv_escape f = concat (map (\<lambda>c. if c = CHR 0x22 then [CHR 0x22, CHR 0x22] else [c]) f)"

definition csv_field :: "string \<Rightarrow> string" where
  \<comment> \<open>\<open>QUOTE_MINIMAL\<close>: a field is quoted when it holds a special character.\<close>
  "csv_field f = (if list_ex csv_special f then [CHR 0x22] @ csv_escape f @ [CHR 0x22] else f)"

fun csv_join :: "string list \<Rightarrow> string" where
  "csv_join [] = []"
| "csv_join [f] = f"
| "csv_join (f # g # fs) = f @ [CHR 0x2C] @ csv_join (g # fs)"

definition csv_row :: "string list \<Rightarrow> string" where
  \<comment> \<open>\<open>writer.writerow\<close>: the fields joined by commas and ended by CR LF; a row that is one
      empty field is written as two quote characters.\<close>
  "csv_row fs =
     (if fs = [[]] then [CHR 0x22, CHR 0x22] else csv_join (map csv_field fs)) @ [CHR 0x0D, CHR 0x0A]"

definition fieldnames :: "string list" where
  "fieldnames = [''case_number'', ''case_date'', ''inn'']"

definition dict_values :: "case_rec \<Rightarrow> string list" where
  "dict_values c = [case_number c, case_date c, inn c]"

definition csv_text :: "case_rec list \<Rightarrow> string" where
  \<comment> \<open>\<open>writer.writeheader()\<close> followed by \<open>writer.writerows(cases)\<close>.\<close>
  "csv_text cases = csv_row fieldnames @ concat (map (\<lambda>c. csv_row (dict_values c)) cases)"

definition export_data_to_csv ::
  "db_fault \<Rightarrow> bool \<Rightarrow> store \<Rightarrow> string \<Rightarrow> bool \<times> string option \<times> status_msg list" where
  \<comment> \<open>The flag says whether the file can be opened and written.  The result is the value
      returned, the text of the file written (\<open>None\<close> when none is) and the messages shown.\<close>
  "export_data_to_csv f io_ok st file_path =
     (let cases = get_all_cases_as_dicts f st in
      if cases = [] then (False, None, [MsgExportCsv file_path, MsgNoDataCsv])
      else if io_ok then (True, Some (csv_text cases), [MsgExportCsv file_path, MsgCsvDone file_path])
      else (False, None, [MsgExportCsv file_path, MsgCsvError]))"

subsection \<open>Reading a CSV file back\<close>

text \<open>
  The reference reader: the state machine of \<open>csv.reader\<close> for the dialect the export
  writes (comma, double quote, doubled quotes, not strict), fed the lines of a file opened
  with \<open>newline=''\<close>, and \<open>csv.DictReader\<close> on top of it.
\<close>

datatype mode = START_RECORD | START_FIELD | IN_FIELD | IN_QUOTED_FIELD | QUOTE_IN_QUOTED_FIELD
  | EAT_CRNL

record reader =
  r_mode :: mode
  r_field :: string  \<comment> \<open>the characters of the field being read\<close>
  r_fields :: "string list"  \<comment> \<open>the fields of the record being read\<close>
  r_records :: "string list list"  \<comment> \<open>the records returned so far\<close>

definition save_field :: "mode \<Rightarrow> reader \<Rightarrow> reader" where
  "save_field m r = r\<lparr>r_mode := m, r_field := [], r_fields := r_fields r @ [r_field r]\<rparr>"

definition add_char :: "mode \<Rightarrow> char \<Rightarrow> reader \<Rightarrow> reader" where
  "add_char m c r = r\<lparr>r_mode := m, r_field := r_field r @ [c]\<rparr>"

definition is_newline :: "char \<Rightarrow> bool" where
  "is_newline c = (c = CHR 0x0D \<or> c = CHR 0x0A)"

definition start_field :: "char \<Rightarrow> reader \<Rightarrow> reader" where
  "start_field c r =
     (if is_newline c then save_field EAT_CRNL r
      else if c = CHR 0x22 then r\<lparr>r_mode := IN_QUOTED_FIELD\<rparr>
      else if c = CHR 0x2C then save_field START_FIELD r
      else add_char IN_FIELD c r)"

definition process_char :: "char \<Rightarrow> reader \<Rightarrow> reader option" where
  \<comment> \<open>One character of a line; \<open>None\<close> is \<open>csv.Error\<close>.\<close>
  "process_char c r =
     (case r_mode r of
        START_RECORD \<Rightarrow>
          (if is_newline c then Some (r\<lparr>r_mode := EAT_CRNL\<rparr>) else Some (start_field c r))
      | START_FIELD \<Rightarrow> Some (start_field c r)
      | IN_FIELD \<Rightarrow>
          (if is_newline c then Some (save_field EAT_CRNL r)
           else if c = CHR 0x2C then Some (save_field START_FIELD r)
           else Some (add_char IN_FIELD c r))
      | IN_QUOTED_FIELD \<Rightarrow>
          (if c = CHR 0x22 then Some (r\<lparr>r_mode := QUOTE_IN_QUOTED_FIELD\<rparr>)
           else Some (add_char IN_QUOTED_FIELD c r))
      | QUOTE_IN_QUOTED_FIELD \<Rightarrow>
          (if c = CHR 0x22 then Some (add_char IN_QUOTED_FIELD c r)
           else if c = CHR 0x2C then Some (save_field START_FIELD r)
           else if is_newline c then Some (save_field EAT_CRNL r)
           else Some (add_char IN_FIELD c r))
      | EAT_CRNL \<Rightarrow> (if is_newline c then Some r else None))"

definition emit :: "reader \<Rightarrow> reader" where
  \<comment> \<open>The record is complete: it is returned and the reader reset.\<close>
  "emit r = r\<lparr>r_mode := START_RECORD, r_field := [], r_fields := [],
               r_records := r_records r @ [r_fields r]\<rparr>"

definition end_of_line :: "reader \<Rightarrow> reader" where
  \<comment> \<open>The end of a line: inside quotes the record goes on with the next line.\<close>
  "end_of_line r =
     (case r_mode r of
        START_RECORD \<Rightarrow> emit r
      | START_FIELD \<Rightarrow> emit (save_field START_RECORD r)
      | IN_FIELD \<Rightarrow> emit (save_field START_RECORD r)
      | IN_QUOTED_FIELD \<Rightarrow> r
      | QUOTE_IN_QUOTED_FIELD \<Rightarrow> emit (save_field START_RECORD r)
      | EAT_CRNL \<Rightarrow> emit r)"

definition line_ends :: "char \<Rightarrow> string \<Rightarrow> bool" where
  \<comment> \<open>Whether a line ends after character \<open>c\<close>, the rest of the text being \<open>cs\<close>: after a line
      feed, and after a carriage return that no line feed follows.\<close>
  "line_ends c cs =
     (c = CHR 0x0A \<or> (c = CHR 0x0D \<and> (case cs of [] \<Rightarrow> True | d # ds \<Rightarrow> d \<noteq> CHR 0x0A)))"

fun feed :: "reader \<Rightarrow> string \<Rightarrow> reader option" where
  "feed r [] = Some r"
| "feed r (c # cs) =
     (case process_char c r of
        None \<Rightarrow> None
      | Some r1 \<Rightarrow> feed (if line_ends c cs then end_of_line r1 else r1) cs)"

definition at_eof :: "reader \<Rightarrow> string list list" where
  \<comment> \<open>The end of the file: a last line without a line end, or an open quoted field, still
      gives a record.\<close>
  "at_eof r =
     (case r_mode r of
        START_RECORD \<Rightarrow> r_records r
      | EAT_CRNL \<Rightarrow> r_records r @ [r_fields r]
      | START_FIELD \<Rightarrow> r_records r @ [r_fields r @ [r_field r]]
      | IN_FIELD \<Rightarrow> r_records r @ [r_fields r @ [r_field r]]
      | IN_QUOTED_FIELD \<Rightarrow> r_records r @ [r_fields r @ [r_field r]]
      | QUOTE_IN_QUOTED_FIELD \<Rightarrow> r_records r @ [r_fields r @ [r_field r]])"

abbreviation reader_at :: "mode \<Rightarrow> string \<Rightarrow> string list \<Rightarrow> string list list \<Rightarrow> reader" where
  "reader_at m f fs rs \<equiv> \<lparr>r_mode = m, r_field = f, r_fields = fs, r_records = rs\<rparr>"

definition new_reader :: reader where
  "new_reader = reader_at START_RECORD [] [] []"

definition dict_tuple :: "case_rec \<Rightarrow> string \<times> string \<times> string" where
  "dict_tuple c = (case_number c, case_date c, inn c)"

definition csv_reader :: "string \<Rightarrow> string list list option" where
  "csv_reader text = map_option at_eof (feed new_reader text)"

fun as_tuple :: "string list \<Rightarrow> (string \<times> string \<times> string) option" where
  "as_tuple [a, b, c] = Some (a, b, c)"
| "as_tuple fs = None"

fun all_some :: "'a option list \<Rightarrow> 'a list option" where
  "all_some [] = Some []"
| "all_some (None # xs) = None"
| "all_some (Some x # xs) = map_option ((#) x) (all_some xs)"

definition read_back :: "string \<Rightarrow> (string \<times> string \<times> string) list option" where
  \<comment> \<open>The \<open>(case_number, case_date, inn)\<close> tuples of a file with the export's header; empty
      records are skipped.\<close>
  "read_back text =
     (case csv_reader text of
        None \<Rightarrow> None
      | Some [] \<Rightarrow> None
      | Some (h # rows) \<Rightarrow>
          (if h = fieldnames then all_some (map as_tuple (filter (\<lambda>fs. fs \<noteq> []) rows))
           else None))"

section \<open>Sample inputs\<close>

definition no_elements :: cell where
  "no_elements = \<lparr>date_element = NoSuchElement, case_link = NoSuchElement\<rparr>"

definition data_row :: "string \<Rightarrow> string \<Rightarrow> row" where
  \<comment> \<open>A result row of four cells; the first shows the date text and the case link.\<close>
  "data_row d n = [\<lparr>date_element = Found d, case_link = Found n\<rparr>, no_elements, no_elements, no_elements]"

definition short_row :: row where
  \<comment> \<open>A result row of three cells, with a date and a case link of its own.\<close>
  "short_row = [\<lparr>date_element = Found ''17.03.2023'', case_link = Found ''A99-99/2023''\<rparr>,
                no_elements, no_elements]"

definition linkless_row :: row where
  \<comment> \<open>A result row of four cells whose first cell has a date but no case link.\<close>
  "linkless_row = [\<lparr>date_element = Found ''17.03.2023'', case_link = NoSuchElement\<rparr>,
                   no_elements, no_elements, no_elements]"

definition env_of :: "site \<Rightarrow> env" where
  \<comment> \<open>The browser starts, the site behaves as given, the database serves every call; the
      platform writes years without leading zeros.\<close>
  "env_of p = \<lparr>libc = PlainYear, init_ok = True, page = p, script_exists = True, db_faults = (\<lambda>k. NoFault)\<rparr>"

definition superscript_inn :: string where
  \<comment> \<open>Ten times the character superscript two.\<close>
  "superscript_inn = [CHR 0xB2, CHR 0xB2, CHR 0xB2, CHR 0xB2, CHR 0xB2,
                      CHR 0xB2, CHR 0xB2, CHR 0xB2, CHR 0xB2, CHR 0xB2]"

definition sample_store :: store where
  "sample_store =
     [\<lparr>row_number = ''A12-34/2023'', row_date = \<lparr>d_year = 2023, d_month = 1, d_day = 15\<rparr>,
       row_inn = ''1234567890''\<rparr>,
      \<lparr>row_number = ''B56-78/2022'', row_date = \<lparr>d_year = 2022, d_month = 12, d_day = 31\<rparr>,
       row_inn = ''1234567890''\<rparr>,
      \<lparr>row_number = ''a12-99/2023'', row_date = \<lparr>d_year = 2023, d_month = 2, d_day = 1\<rparr>,
       row_inn = ''098765432109''\<rparr>]"

definition quoting_store :: store where
  \<comment> \<open>A row whose case number holds a comma, two quote characters and a line feed, and a
      row with an empty taxpayer ID.\<close>
  "quoting_store =
     [\<lparr>row_number = [CHR 0x41, CHR 0x2C, CHR 0x22, CHR 0x31, CHR 0x22, CHR 0x0A, CHR 0x62],
       row_date = \<lparr>d_year = 2023, d_month = 1, d_day = 15\<rparr>, row_inn = [CHR 0x31, CHR 0x32]\<rparr>,
      \<lparr>row_number = [CHR 0x42], row_date = \<lparr>d_year = 2022, d_month = 12, d_day = 31\<rparr>,
       row_inn = []\<rparr>]"

definition row_tuple :: "db_row \<Rightarrow> string \<times> string \<times> string" where
  \<comment> \<open>The \<open>(case_number, case_date, taxpayer_id)\<close> tuple of a stored row, the date in ISO-8601.\<close>
  "row_tuple r = (row_number r, isoformat (row_date r), row_inn r)"

section \<open>The filter as the spec words it\<close>

fun spec_substring :: "string \<Rightarrow> string \<Rightarrow> bool" where
  \<comment> \<open>The first string occurs in the second.\<close>
  "spec_substring p [] = (p = [])"
| "spec_substring p (c # cs) = (take (length p) (c # cs) = p \<or> spec_substring p cs)"

definition ci_substring :: "(char \<Rightarrow> char) \<Rightarrow> string \<Rightarrow> string \<Rightarrow> bool" where
  \<comment> \<open>Case-insensitive substring match, for a case folding.\<close>
  "ci_substring cf p s = spec_substring (map cf p) (map cf s)"

definition like_meta :: "char \<Rightarrow> bool" where
  \<comment> \<open>The characters with a meaning of their own in a \<open>LIKE\<close> pattern.\<close>
  "like_meta c = (c \<in> set [CHR ''%'', CHR ''_'', CHR 0x5C])"

definition plain_filter :: "string option \<Rightarrow> bool" where
  "plain_filter x = (case x of None \<Rightarrow> True | Some p \<Rightarrow> list_all (\<lambda>c. \<not> like_meta c) p)"

definition date_filter_ok :: "string option \<Rightarrow> bool" where
  \<comment> \<open>The bound is absent, empty or written \<open>YYYY-MM-DD\<close>.\<close>
  "date_filter_ok x =
     (case x of None \<Rightarrow> True
      | Some t \<Rightarrow> (case date_in t of None \<Rightarrow> t = [] | Some d \<Rightarrow> True))"

definition spec_matches ::
  "(char \<Rightarrow> char) \<Rightarrow> string option \<Rightarrow> string option \<Rightarrow> string option \<Rightarrow> string option \<Rightarrow> db_row \<Rightarrow> bool" where
  \<comment> \<open>The conjunction of the filters that are present.\<close>
  "spec_matches cf case_number_filter inn_filter start_date end_date r =
     ((case case_number_filter of None \<Rightarrow> True | Some p \<Rightarrow> ci_substring cf p (row_number r))
      \<and> (case inn_filter of None \<Rightarrow> True | Some p \<Rightarrow> ci_substring cf p (row_inn r))
      \<and> (case start_date of None \<Rightarrow> True
          | Some t \<Rightarrow> (case date_in t of None \<Rightarrow> t = [] | Some d \<Rightarrow> date_le d (row_date r)))
      \<and> (case end_date of None \<Rightarrow> True
          | Some t \<Rightarrow> (case date_in t of None \<Rightarrow> t = [] | Some d \<Rightarrow> date_le (row_date r) d)))"

definition in_january_2023 :: "db_row \<Rightarrow> bool" where
  "in_january_2023 r =
     (date_le \<lparr>d_year = 2023, d_month = 1, d_day = 1\<rparr> (row_date r)
      \<and> date_le (row_date r) \<lparr>d_year = 2023, d_month = 1, d_day = 31\<rparr>)"

section \<open>Evaluation rules and shared lemmas\<close>

lemmas date_eval = strptime_dmy_def isoformat_def strftime_ymd_def plain_nat_def match_d_def match_m_def match_Y_def
  is_decimal_def valid_date_def days_in_month_def is_leap_def num_val_def digit_val_def strip_def
  isspace_char_def pad2_def pad4_def digit_char_def

lemmas scrape_eval = scrape_arbitr_cases_def new_scraper_def initialize_webdriver_def
  run_query_def init_loop_def process_row_def parse_and_append_def add_log_def
  data_row_def short_row_def linkless_row_def no_elements_def

lemmas coord_eval = start_scraping_def save_cases_def valid_inn_def isdigit_def isdigit_char_def
  env_of_def create_table_def insert_case_def sql_insert_def date_in_def

lemma strftime_ymd_four_digit_year:
  assumes "1000 \<le> d_year d"
  shows "strftime_ymd lc d = isoformat d"
  using assms by (cases lc) (simp_all add: strftime_ymd_def isoformat_def plain_nat_def)

lemma valid_inn_sample: "valid_inn ''1234567890''"
  by (simp add: valid_inn_def isdigit_def isdigit_char_def is_decimal_def)

lemma scrape_fails_empty:
  "fst (scrape_arbitr_cases lc ok (Fails s x) w inn_arg m) = []"
  by (simp add: scrape_arbitr_cases_def run_query_def initialize_webdriver_def
      split: option.splits prod.splits if_splits)

lemma scrape_no_rows_empty:
  "fst (scrape_arbitr_cases lc ok (Loaded []) w inn_arg m) = []"
  by (simp add: scrape_arbitr_cases_def run_query_def initialize_webdriver_def init_loop_def
      split: option.splits prod.splits if_splits)

lemma timeout_is_logged:
  assumes "driver w = None" and "ok"
  shows "ErrorTimeout \<in> set (snd (snd (scrape_arbitr_cases lc ok (Fails s TimeoutException) w inn_arg m)))"
  using assms
  by (simp add: scrape_arbitr_cases_def run_query_def initialize_webdriver_def)

lemma session_closed:
  "case driver (fst (snd (scrape_arbitr_cases lc ok p w inn_arg m))) of
     None \<Rightarrow> True
   | Some d \<Rightarrow> d \<notin> set (live (fst (snd (scrape_arbitr_cases lc ok p w inn_arg m))))"
  by (auto simp add: scrape_arbitr_cases_def initialize_webdriver_def
      split: option.splits prod.splits if_splits)

lemma start_scraping_empty:
  assumes "valid_inn inn_arg" and "fst (scrape_arbitr_cases (libc e) (init_ok e) (page e) w inn_arg 10) = []"
  shows "fst (start_scraping e w st inn_arg) =
           [Status (MsgStart inn_arg), Status MsgScrapeBegin, Scrape inn_arg,
            Status (MsgNoneOrError inn_arg), Status MsgGuiUpdate, ShowResults [],
            Status (MsgNothingToSave inn_arg), Status MsgDone]"
    and "snd (snd (start_scraping e w st inn_arg)) = st"
  using assms by (auto simp add: start_scraping_def save_cases_def split: prod.splits)

section \<open>Rows whose date does not parse\<close>

text \<open>
  Claim C1, as the code has it: a result row with at least four cells whose date text and
  case link are found, but whose date text does not parse as day.month.year, adds no Case
  Record; a warning naming the date text and the case number is logged, and the loop goes
  on with the next row.
\<close>

theorem unparsable_date_row_is_dropped:
  assumes "4 \<le> length r" and "date_element (r ! 0) = Found t" and "case_link (r ! 0) = Found n"
    and "strptime_dmy (strip t) = None" and "int (length (cases_data st)) < max_results"
  shows "cases_data (process_row lc inn_arg i r st) = cases_data st
       \<and> log (process_row lc inn_arg i r st) = log st @ [WarnDateParse (strip t) (strip n)]
       \<and> scrape_rows lc inn_arg max_results i (r # rs) st
           = scrape_rows lc inn_arg max_results (Suc i) rs (process_row lc inn_arg i r st)"
  using assms by (simp add: process_row_def parse_and_append_def add_log_def)

theorem unparsable_date_row_is_dropped_witness:
  "4 \<le> length (data_row ''31.02.2023'' ''A12-34/2023'')
   \<and> strptime_dmy (strip ''31.02.2023'') = None
   \<and> cases_data (process_row PlainYear ''1234567890'' 0 (data_row ''31.02.2023'' ''A12-34/2023'') init_loop) = []
   \<and> log (process_row PlainYear ''1234567890'' 0 (data_row ''31.02.2023'' ''A12-34/2023'') init_loop)
       = [WarnDateParse ''31.02.2023'' ''A12-34/2023'']
   \<and> cases_data (scrape_rows PlainYear ''1234567890'' 10 0
        [data_row ''31.02.2023'' ''A12-34/2023'', data_row ''16.03.2023'' ''A56-78/2023''] init_loop)
       = [\<lparr>case_number = ''A56-78/2023'', case_date = ''2023-03-16'', inn = ''1234567890''\<rparr>]"
proof -
  have p: "strptime_dmy (strip ''31.02.2023'') = None" by (simp add: date_eval)
  have s: "strip ''A12-34/2023'' = ''A12-34/2023''" by (simp add: strip_def isspace_char_def)
  have s2: "strip ''31.02.2023'' = ''31.02.2023''" by (simp add: strip_def isspace_char_def)
  have l: "4 \<le> length (data_row ''31.02.2023'' ''A12-34/2023'')" by (simp add: data_row_def)
  have rest: "cases_data (scrape_rows PlainYear ''1234567890'' 10 1 [data_row ''16.03.2023'' ''A56-78/2023'']
        (process_row PlainYear ''1234567890'' 0 (data_row ''31.02.2023'' ''A12-34/2023'') init_loop))
       = [\<lparr>case_number = ''A56-78/2023'', case_date = ''2023-03-16'', inn = ''1234567890''\<rparr>]"
    by (simp add: scrape_eval date_eval)
  from unparsable_date_row_is_dropped
      [of "data_row ''31.02.2023'' ''A12-34/2023''" "''31.02.2023''" "''A12-34/2023''"
        init_loop 10 PlainYear "''1234567890''" 0 "[data_row ''16.03.2023'' ''A56-78/2023'']", OF l _ _ p]
  show ?thesis using p l s s2 rest by (simp add: data_row_def init_loop_def)
qed

text \<open>
  The claim as the spec words it fails: for a page whose only row shows the date
  31.02.2023, the scraper returns no record at all, not a record with an absent date.
\<close>

theorem unparsable_date_record_not_retained:
  "strptime_dmy ''31.02.2023'' = None \<and>
   fst (scrape_arbitr_cases PlainYear True (Loaded [data_row ''31.02.2023'' ''A12-34/2023''])
          new_scraper ''1234567890'' 10) = []"
  by (simp add: scrape_eval date_eval)

section \<open>Rows with fewer than four cells\<close>

text \<open>
  Claim C4 says that a row with fewer than four cells adds no Case Record, so that a
  well-formed row, a malformed row and a second well-formed row give exactly two records.
  The code tests the number of cells, but parses and appends outside that test: for a row
  of three cells between two well-formed rows it appends the record of the row before once
  more, and three records are returned.
\<close>

theorem short_row_repeats_previous_record:
  "fst (scrape_arbitr_cases lc True
          (Loaded [data_row ''15.03.2023'' ''A12-34/2023'', short_row,
                   data_row ''16.03.2023'' ''A56-78/2023''])
          new_scraper ''1234567890'' 10)
   = [\<lparr>case_number = ''A12-34/2023'', case_date = ''2023-03-15'', inn = ''1234567890''\<rparr>,
      \<lparr>case_number = ''A12-34/2023'', case_date = ''2023-03-15'', inn = ''1234567890''\<rparr>,
      \<lparr>case_number = ''A56-78/2023'', case_date = ''2023-03-16'', inn = ''1234567890''\<rparr>]"
  by (cases lc; simp add: scrape_eval date_eval)

text \<open>A row whose case link is missing is skipped, as the claim says.\<close>

lemma linkless_row_is_skipped:
  "fst (scrape_arbitr_cases lc True
          (Loaded [data_row ''15.03.2023'' ''A12-34/2023'', linkless_row,
                   data_row ''16.03.2023'' ''A56-78/2023''])
          new_scraper ''1234567890'' 10)
   = [\<lparr>case_number = ''A12-34/2023'', case_date = ''2023-03-15'', inn = ''1234567890''\<rparr>,
      \<lparr>case_number = ''A56-78/2023'', case_date = ''2023-03-16'', inn = ''1234567890''\<rparr>]"
  by (cases lc; simp add: scrape_eval date_eval)

section \<open>Browser sessions\<close>

text \<open>
  Claim C6 says that every call acquires a session of its own.  The scraper starts a
  session only while \<open>self.driver\<close> is unset and never unsets it after \<open>quit()\<close>: the
  second call on the same instance starts no session, sends its first command to the
  session the first call closed, and returns no record.
\<close>

theorem second_call_reuses_closed_session:
  "(let page0 = Loaded [data_row ''15.03.2023'' ''A12-34/2023''];
        (c1, w1, l1) = scrape_arbitr_cases lc True page0 new_scraper ''1234567890'' 10;
        (c2, w2, l2) = scrape_arbitr_cases lc True page0 w1 ''1234567890'' 10
    in (c1, driver w1, live w1, c2, driver w2, opened w2, l2))
   = ([\<lparr>case_number = ''A12-34/2023'', case_date = ''2023-03-15'', inn = ''1234567890''\<rparr>],
      Some 0, [], [], Some 0, 1, [ErrorUnexpected, InfoDriverClosed])"
  by (cases lc; simp add: scrape_eval date_eval)

text \<open>What does hold: no call leaves the session it used open.\<close>

lemma session_closed_after_call:
  assumes "scrape_arbitr_cases lc ok p w inn_arg m = (cs, w1, lg)" and "driver w1 = Some d"
  shows "d \<notin> set (live w1)"
  using assms
  by (auto simp add: scrape_arbitr_cases_def initialize_webdriver_def
      split: option.splits prod.splits if_splits)

section \<open>Timeouts\<close>

text \<open>
  Claim C2, as the code has it: when a bounded wait expires, \<open>scrape_arbitr_cases\<close> returns
  the empty list, the value it also returns for a page without rows; it logs the timeout
  (when the call started its session) and leaves no session open; \<open>start_scraping\<close> then
  shows the message "no new cases found or an error occurred", keeps no data and calls
  neither \<open>create_table\<close> nor \<open>insert_case\<close>.
\<close>

theorem timeout_gives_empty_result_and_no_persistence:
  assumes "valid_inn inn_arg" and "page e = Fails s TimeoutException"
  shows "fst (scrape_arbitr_cases (libc e) (init_ok e) (page e) w inn_arg 10) = []
       \<and> fst (scrape_arbitr_cases (libc e) (init_ok e) (page e) w inn_arg 10)
           = fst (scrape_arbitr_cases (libc e) (init_ok e) (Loaded []) w inn_arg 10)
       \<and> fst (start_scraping e w st inn_arg) =
           [Status (MsgStart inn_arg), Status MsgScrapeBegin, Scrape inn_arg,
            Status (MsgNoneOrError inn_arg), Status MsgGuiUpdate, ShowResults [],
            Status (MsgNothingToSave inn_arg), Status MsgDone]
       \<and> filter is_persistence (fst (start_scraping e w st inn_arg)) = []
       \<and> snd (snd (start_scraping e w st inn_arg)) = st
       \<and> (driver w = None \<and> init_ok e \<longrightarrow>
            ErrorTimeout \<in> set (snd (snd (scrape_arbitr_cases (libc e) (init_ok e) (page e) w inn_arg 10))))
       \<and> (case driver (fst (snd (scrape_arbitr_cases (libc e) (init_ok e) (page e) w inn_arg 10))) of
             None \<Rightarrow> True
           | Some d \<Rightarrow>
               d \<notin> set (live (fst (snd (scrape_arbitr_cases (libc e) (init_ok e) (page e) w inn_arg 10)))))"
proof -
  have emp: "fst (scrape_arbitr_cases (libc e) (init_ok e) (page e) w inn_arg 10) = []"
    using assms(2) by (simp add: scrape_fails_empty)
  have tr: "fst (start_scraping e w st inn_arg) =
           [Status (MsgStart inn_arg), Status MsgScrapeBegin, Scrape inn_arg,
            Status (MsgNoneOrError inn_arg), Status MsgGuiUpdate, ShowResults [],
            Status (MsgNothingToSave inn_arg), Status MsgDone]"
    using start_scraping_empty(1) [OF assms(1) emp] .
  have st: "snd (snd (start_scraping e w st inn_arg)) = st"
    using start_scraping_empty(2) [OF assms(1) emp] .
  have lg: "driver w = None \<and> init_ok e \<longrightarrow>
            ErrorTimeout \<in> set (snd (snd (scrape_arbitr_cases (libc e) (init_ok e) (page e) w inn_arg 10)))"
    using timeout_is_logged [of w "init_ok e" "libc e" s inn_arg 10] assms(2) by simp
  show ?thesis
    using emp tr st lg session_closed [of "libc e" "init_ok e" "page e" w inn_arg 10]
    by (simp add: scrape_no_rows_empty)
qed

theorem timeout_gives_empty_result_and_no_persistence_witness:
  "valid_inn ''1234567890''
   \<and> fst (scrape_arbitr_cases PlainYear True (Fails WaitResults TimeoutException) new_scraper
            ''1234567890'' 10) = []
   \<and> filter is_persistence
        (fst (start_scraping (env_of (Fails WaitResults TimeoutException)) new_scraper
               sample_store ''1234567890'')) = []
   \<and> snd (snd (start_scraping (env_of (Fails WaitResults TimeoutException)) new_scraper
                 sample_store ''1234567890'')) = sample_store
   \<and> ErrorTimeout \<in> set (snd (snd (scrape_arbitr_cases PlainYear True
          (Fails WaitResults TimeoutException) new_scraper ''1234567890'' 10)))"
proof -
  have p: "page (env_of (Fails WaitResults TimeoutException)) = Fails WaitResults TimeoutException"
    by (simp add: env_of_def)
  have i: "init_ok (env_of (Fails WaitResults TimeoutException)) = True"
    "libc (env_of (Fails WaitResults TimeoutException)) = PlainYear"
    by (simp_all add: env_of_def)
  from timeout_gives_empty_result_and_no_persistence [OF valid_inn_sample p, of new_scraper sample_store]
  show ?thesis using valid_inn_sample by (simp add: p i new_scraper_def)
qed

text \<open>
  The claim as the spec words it fails: when the wait for the results container expires,
  the source-unavailable message is not among the messages shown, and the scraper's result
  is the one it gives for a page without rows; only its log differs.
\<close>

theorem timeout_not_reported_as_unavailable:
  "Status MsgSiteUnavailable
     \<notin> set (fst (start_scraping (env_of (Fails WaitResults TimeoutException)) new_scraper []
                   ''1234567890''))
   \<and> scrape_arbitr_cases PlainYear True (Fails WaitResults TimeoutException) new_scraper ''1234567890'' 10
       = ([], \<lparr>driver = Some 0, opened = 1, live = []\<rparr>,
          [InfoDriverInit, InfoNavigate, InfoInnEntered ''1234567890'', InfoSearchClicked,
           ErrorTimeout, InfoDriverClosed])
   \<and> fst (scrape_arbitr_cases PlainYear True (Loaded []) new_scraper ''1234567890'' 10) = []"
  by (simp add: coord_eval scrape_eval is_decimal_def)

section \<open>Validation of the taxpayer ID\<close>

text \<open>An ID that fails the test of the code stops \<open>start_scraping\<close> at once.\<close>

lemma invalid_inn_rejected:
  assumes "\<not> valid_inn inn_arg"
  shows "start_scraping e w st inn_arg = ([Status (MsgStart inn_arg), Status MsgInvalidInn], w, st)"
  using assms by (simp add: start_scraping_def)

lemma valid_inn_without_superscripts:
  assumes "valid_inn s" and "set s \<inter> set [CHR 0xB2, CHR 0xB3, CHR 0xB9] = {}"
  shows "list_all is_decimal s \<and> (length s = 10 \<or> length s = 12)"
  using assms by (auto simp add: valid_inn_def isdigit_def isdigit_char_def list_all_iff)

lemma non_matching_inn_rejected:
  assumes "\<not> (list_all is_decimal s \<and> (length s = 10 \<or> length s = 12))"
    and "set s \<inter> set [CHR 0xB2, CHR 0xB3, CHR 0xB9] = {}"
  shows "start_scraping e w st s = ([Status (MsgStart s), Status MsgInvalidInn], w, st)"
proof -
  have "\<not> valid_inn s" using assms valid_inn_without_superscripts by blast
  then show ?thesis by (rule invalid_inn_rejected)
qed

text \<open>
  Claim C3 says that every ID that is not ten or twelve decimal digits is rejected before
  the scraper is called.  The code tests \<open>inn.isdigit()\<close>, which also holds for superscript
  digits: the ID of ten characters superscript two has no decimal digit, passes the test,
  and the scraper is called with it.
\<close>

theorem superscript_inn_reaches_scraper:
  "length superscript_inn = 10 \<and> list_all is_decimal superscript_inn = False
   \<and> fst (start_scraping (env_of (Loaded [])) new_scraper [] superscript_inn) =
       [Status (MsgStart superscript_inn), Status MsgScrapeBegin, Scrape superscript_inn,
        Status (MsgNoneOrError superscript_inn), Status MsgGuiUpdate, ShowResults [],
        Status (MsgNothingToSave superscript_inn), Status MsgDone]"
proof -
  have v: "valid_inn superscript_inn"
    by (simp add: valid_inn_def isdigit_def isdigit_char_def is_decimal_def superscript_inn_def)
  have e: "fst (scrape_arbitr_cases (libc (env_of (Loaded []))) (init_ok (env_of (Loaded []))) (page (env_of (Loaded [])))
                  new_scraper superscript_inn 10) = []"
    by (simp add: env_of_def scrape_no_rows_empty)
  have l: "length superscript_inn = 10 \<and> list_all is_decimal superscript_inn = False"
    by (simp add: superscript_inn_def is_decimal_def)
  show ?thesis using start_scraping_empty(1) [OF v e] l by simp
qed

section \<open>The count reported after scraping\<close>

text \<open>
  Claim C9, as the code has it: when the scraper returns N records and N is at least 1,
  \<open>start_scraping\<close> shows the count N before the first persistence call, and
  \<open>create_table\<close> is called after it.  When the scraper returns no record, the message
  shown is "no new cases found or an error occurred", which carries no count, and no
  persistence call is made.
\<close>

theorem count_reported_before_persistence:
  assumes "valid_inn inn_arg"
    and "scraped = fst (scrape_arbitr_cases (libc e) (init_ok e) (page e) w inn_arg 10)"
  shows "(scraped \<noteq> [] \<longrightarrow>
           (\<exists>pre post. fst (start_scraping e w st inn_arg)
                          = pre @ Status (MsgFound (length scraped) inn_arg) # post
                \<and> filter is_persistence pre = [] \<and> CreateTable \<in> set post))
       \<and> (scraped = [] \<longrightarrow>
           (fst (start_scraping e w st inn_arg) =
              [Status (MsgStart inn_arg), Status MsgScrapeBegin, Scrape inn_arg,
               Status (MsgNoneOrError inn_arg), Status MsgGuiUpdate, ShowResults [],
               Status (MsgNothingToSave inn_arg), Status MsgDone]))"
proof (cases "scraped = []")
  case True
  then show ?thesis using start_scraping_empty(1) [OF assms(1), of e w st] assms(2) by simp
next
  case False
  have "fst (start_scraping e w st inn_arg)
          = [Status (MsgStart inn_arg), Status MsgScrapeBegin, Scrape inn_arg]
            @ Status (MsgFound (length scraped) inn_arg)
            # ([Status MsgGuiUpdate, ShowResults scraped] @ fst (save_cases e st inn_arg scraped)
               @ [Status MsgDone])"
    using assms False by (auto simp add: start_scraping_def split: prod.splits)
  moreover have "CreateTable \<in> set (fst (save_cases e st inn_arg scraped))"
    using False by (simp add: save_cases_def split: prod.splits)
  moreover have "filter is_persistence
      [Status (MsgStart inn_arg), Status MsgScrapeBegin, Scrape inn_arg] = []" by simp
  ultimately have "\<exists>pre post. fst (start_scraping e w st inn_arg)
                          = pre @ Status (MsgFound (length scraped) inn_arg) # post
                \<and> filter is_persistence pre = [] \<and> CreateTable \<in> set post"
    by (metis Un_iff set_append)
  then show ?thesis using False by simp
qed

theorem count_reported_before_persistence_witness:
  "valid_inn ''1234567890''
   \<and> fst (scrape_arbitr_cases PlainYear True (Loaded [data_row ''15.03.2023'' ''A12-34/2023''])
            new_scraper ''1234567890'' 10)
       = [\<lparr>case_number = ''A12-34/2023'', case_date = ''2023-03-15'', inn = ''1234567890''\<rparr>]
   \<and> (\<exists>pre post.
          fst (start_scraping (env_of (Loaded [data_row ''15.03.2023'' ''A12-34/2023'']))
                 new_scraper [] ''1234567890'')
            = pre @ Status (MsgFound 1 ''1234567890'') # post
          \<and> filter is_persistence pre = [] \<and> CreateTable \<in> set post)"
proof -
  let ?e = "env_of (Loaded [data_row ''15.03.2023'' ''A12-34/2023''])"
  have r: "fst (scrape_arbitr_cases PlainYear True (Loaded [data_row ''15.03.2023'' ''A12-34/2023''])
            new_scraper ''1234567890'' 10)
       = [\<lparr>case_number = ''A12-34/2023'', case_date = ''2023-03-15'', inn = ''1234567890''\<rparr>]"
    by (simp add: scrape_eval date_eval)
  have s: "[\<lparr>case_number = ''A12-34/2023'', case_date = ''2023-03-15'', inn = ''1234567890''\<rparr>]
        = fst (scrape_arbitr_cases (libc ?e) (init_ok ?e) (page ?e) new_scraper ''1234567890'' 10)"
    using r by (simp add: env_of_def)
  from count_reported_before_persistence [OF valid_inn_sample s, of "[]"]
  show ?thesis using valid_inn_sample r by simp
qed

text \<open>
  The claim as the spec words it fails for N = 0: for a page without rows no message with
  a count is shown.
\<close>

theorem no_count_reported_for_empty_result:
  "fst (start_scraping (env_of (Loaded [])) new_scraper [] ''1234567890'') =
       [Status (MsgStart ''1234567890''), Status MsgScrapeBegin, Scrape ''1234567890'',
        Status (MsgNoneOrError ''1234567890''), Status MsgGuiUpdate, ShowResults [],
        Status (MsgNothingToSave ''1234567890''), Status MsgDone]"
  by (simp add: coord_eval scrape_eval is_decimal_def)

section \<open>Inserting a case twice\<close>

lemmas db_eval = insert_case_def sql_insert_def date_in_def is_decimal_def valid_date_def
  days_in_month_def is_leap_def num_val_def digit_val_def sample_store_def

lemma one_row_per_number:
  assumes "distinct (map row_number st)" and "cn \<in> set (map row_number st)"
  shows "length (filter (\<lambda>r. row_number r = cn) st) = 1"
  using assms
proof (induction st)
  case Nil
  then show ?case by simp
next
  case (Cons a st)
  show ?case
  proof (cases "row_number a = cn")
    case True
    then have "cn \<notin> set (map row_number st)" using Cons.prems(1) by auto
    then have "filter (\<lambda>r. row_number r = cn) st = []" by (auto simp add: filter_empty_conv)
    then show ?thesis using True by simp
  next
    case False
    then show ?thesis using Cons by auto
  qed
qed

lemma sql_insert_distinct:
  assumes "distinct (map row_number st)" and "sql_insert st cn cd i = Some st1"
  shows "distinct (map row_number st1) \<and> cn \<in> set (map row_number st1)"
  using assms by (auto simp add: sql_insert_def split: option.splits if_splits)

text \<open>
  Claim C5: on a store whose case numbers are unique, and with a database that serves both
  calls and accepts both dates, two calls of \<open>insert_case\<close> with the same case number both
  return \<open>True\<close>; the second leaves the store as the first left it, with exactly one row
  of that case number, which holds the values of the first call when the number was new.
\<close>

theorem insert_case_twice_keeps_one_row:
  assumes "distinct (map row_number st)" and "date_in cd = Some d" and "date_in cd2 = Some d2"
    and "st1 = snd (insert_case NoFault st cn cd i)"
    and "st2 = snd (insert_case NoFault st1 cn cd2 i2)"
  shows "fst (insert_case NoFault st cn cd i) = True
       \<and> fst (insert_case NoFault st1 cn cd2 i2) = True
       \<and> st2 = st1
       \<and> length (filter (\<lambda>r. row_number r = cn) st2) = 1
       \<and> (cn \<in> set (map row_number st)
            \<or> st2 = st @ [\<lparr>row_number = cn, row_date = d, row_inn = i\<rparr>])"
proof -
  have s1: "sql_insert st cn cd i = Some st1"
    using assms(2,4) by (simp add: insert_case_def sql_insert_def)
  have d1: "distinct (map row_number st1)" and m1: "cn \<in> set (map row_number st1)"
    using sql_insert_distinct [OF assms(1) s1] by simp_all
  have ok1: "fst (insert_case NoFault st cn cd i) = True"
    using assms(2) by (simp add: insert_case_def sql_insert_def)
  have ok2: "fst (insert_case NoFault st1 cn cd2 i2) = True"
    using assms(3) by (simp add: insert_case_def sql_insert_def)
  have same: "st2 = st1"
    using assms(3,5) m1 by (simp add: insert_case_def sql_insert_def)
  have one: "length (filter (\<lambda>r. row_number r = cn) st2) = 1"
    using one_row_per_number [OF d1 m1] same by simp
  have new: "cn \<in> set (map row_number st) \<or> st2 = st @ [\<lparr>row_number = cn, row_date = d, row_inn = i\<rparr>]"
    using same assms(2,4) by (auto simp add: insert_case_def sql_insert_def)
  show ?thesis using ok1 ok2 same one new by simp
qed

theorem insert_case_twice_keeps_one_row_witness:
  "distinct (map row_number sample_store)
   \<and> date_in ''2024-05-06'' = Some \<lparr>d_year = 2024, d_month = 5, d_day = 6\<rparr>
   \<and> date_in ''2024-07-08'' = Some \<lparr>d_year = 2024, d_month = 7, d_day = 8\<rparr>
   \<and> fst (insert_case NoFault (snd (insert_case NoFault sample_store ''C-1/2024'' ''2024-05-06''
             ''1234567890'')) ''C-1/2024'' ''2024-07-08'' ''098765432109'') = True
   \<and> snd (insert_case NoFault (snd (insert_case NoFault sample_store ''C-1/2024'' ''2024-05-06''
             ''1234567890'')) ''C-1/2024'' ''2024-07-08'' ''098765432109'')
       = sample_store @ [\<lparr>row_number = ''C-1/2024'',
                           row_date = \<lparr>d_year = 2024, d_month = 5, d_day = 6\<rparr>,
                           row_inn = ''1234567890''\<rparr>]"
proof -
  have a: "distinct (map row_number sample_store)" by (simp add: sample_store_def)
  have b: "date_in ''2024-05-06'' = Some \<lparr>d_year = 2024, d_month = 5, d_day = 6\<rparr>"
    by (simp add: db_eval)
  have c: "date_in ''2024-07-08'' = Some \<lparr>d_year = 2024, d_month = 7, d_day = 8\<rparr>"
    by (simp add: db_eval)
  have n: "''C-1/2024'' \<notin> set (map row_number sample_store)" by (simp add: sample_store_def)
  from insert_case_twice_keeps_one_row
      [OF a b c refl refl, of "''C-1/2024''" "''1234567890''" "''098765432109''"]
  show ?thesis using a b c n by blast
qed

section \<open>Database faults while reading\<close>

text \<open>
  Claim C10: when the connection fails or the query raises, \<open>get_all_cases_as_dicts\<close> and
  \<open>get_filtered_cases_as_dicts\<close> return the empty list, the value they return for a store
  without rows, and \<open>filter_cases\<close> shows a found-count of 0 in both situations.
\<close>

theorem read_faults_look_like_empty_store:
  assumes "f = ConnectFault \<or> f = QueryFault"
  shows "get_all_cases_as_dicts f st = []
       \<and> get_all_cases_as_dicts NoFault [] = []
       \<and> get_filtered_cases_as_dicts cf f st cnf innf sd ed = []
       \<and> get_filtered_cases_as_dicts cf NoFault [] cnf innf sd ed = []
       \<and> filter_cases cf f st cnf innf sd ed
           = [Status MsgFiltering, Status (MsgFilteredFound 0), ShowResults []]
       \<and> filter_cases cf f st cnf innf sd ed = filter_cases cf NoFault [] cnf innf sd ed"
proof -
  have a: "get_all_cases_as_dicts f st = []"
    using assms by (auto simp add: get_all_cases_as_dicts_def)
  have b: "get_all_cases_as_dicts NoFault [] = []"
    by (simp add: get_all_cases_as_dicts_def)
  have c: "get_filtered_cases_as_dicts cf f st cnf innf sd ed = []"
    using assms by (auto simp add: get_filtered_cases_as_dicts_def)
  have d: "get_filtered_cases_as_dicts cf NoFault [] cnf innf sd ed = []"
    by (simp add: get_filtered_cases_as_dicts_def sql_select_def split: option.splits)
  show ?thesis using a b c d by (simp add: filter_cases_def)
qed

theorem read_faults_look_like_empty_store_witness:
  "get_all_cases_as_dicts ConnectFault sample_store = []
   \<and> get_filtered_cases_as_dicts ascii_fold ConnectFault sample_store (Some ''A12'') None None None = []
   \<and> filter_cases ascii_fold ConnectFault sample_store (Some ''A12'') None None None
       = filter_cases ascii_fold NoFault [] (Some ''A12'') None None None"
  using read_faults_look_like_empty_store [of ConnectFault sample_store ascii_fold "Some ''A12''" None None None]
  by blast

section \<open>Filtering\<close>

declare like_match.simps(2) [simp del]

lemma like_percent_Nil: "like_match cf (CHR ''%'' # q) [] = like_match cf q []"
  by (subst like_match.simps) simp

lemma like_percent_Cons:
  "like_match cf (CHR ''%'' # q) (c # cs)
     = (like_match cf q (c # cs) \<or> like_match cf (CHR ''%'' # q) cs)"
  by (subst like_match.simps) simp

lemma like_plain_Nil: "\<not> like_meta p \<Longrightarrow> like_match cf (p # q) [] = False"
  by (subst like_match.simps) (simp add: like_meta_def)

lemma like_plain_Cons:
  "\<not> like_meta p \<Longrightarrow>
   like_match cf (p # q) (c # cs) = (cf c = cf p \<and> like_match cf q cs)"
  by (subst like_match.simps) (auto simp add: like_meta_def)

lemma like_match_percent: "like_match cf [CHR ''%''] s"
  by (induction s) (simp_all add: like_percent_Nil like_percent_Cons)

lemma like_match_plain_prefix:
  assumes "list_all (\<lambda>c. \<not> like_meta c) p"
  shows "like_match cf (p @ q) s
           = (map cf (take (length p) s) = map cf p \<and> like_match cf q (drop (length p) s))"
  using assms
proof (induction p arbitrary: s)
  case Nil
  then show ?case by simp
next
  case (Cons c p)
  then have c: "\<not> like_meta c" and p: "list_all (\<lambda>c. \<not> like_meta c) p" by simp_all
  show ?case
  proof (cases s)
    case Nil
    then show ?thesis using c by (simp add: like_plain_Nil)
  next
    case s: (Cons x xs)
    show ?thesis using Cons.IH [OF p, of xs] c s by (auto simp add: like_plain_Cons)
  qed
qed

lemma like_match_contains:
  assumes "list_all (\<lambda>c. \<not> like_meta c) p"
  shows "like_match cf (CHR ''%'' # p @ [CHR ''%'']) s = spec_substring (map cf p) (map cf s)"
proof (induction s)
  case Nil
  show ?case
    using like_match_plain_prefix [OF assms, of cf "[CHR ''%'']" "[]"]
    by (auto simp add: like_percent_Nil like_match_percent)
next
  case (Cons c cs)
  have t: "take (length p) (cf c # map cf cs) = map cf (take (length p) (c # cs))"
    by (metis list.simps(9) take_map)
  have "like_match cf (CHR ''%'' # p @ [CHR ''%'']) (c # cs)
      = (like_match cf (p @ [CHR ''%'']) (c # cs)
         \<or> like_match cf (CHR ''%'' # p @ [CHR ''%'']) cs)"
    by (rule like_percent_Cons)
  also have "\<dots> = (map cf (take (length p) (c # cs)) = map cf p
                  \<or> spec_substring (map cf p) (map cf cs))"
    using like_match_plain_prefix [OF assms, of cf "[CHR ''%'']" "c # cs"] Cons.IH
    by (simp only: like_match_percent simp_thms)
  also have "\<dots> = spec_substring (map cf p) (map cf (c # cs))"
    by (simp add: t)
  finally show ?case .
qed

lemma ilike_contains:
  assumes "list_all (\<lambda>c. \<not> like_meta c) p"
  shows "ilike cf (''%'' @ p @ ''%'') s = ci_substring cf p s"
  using like_match_contains [OF assms, of cf s] by (simp add: ilike_def ci_substring_def)

lemma spec_substring_empty: "spec_substring [] s"
  by (cases s) simp_all

lemma spec_substring_iff: "spec_substring p s = (\<exists>u v. s = u @ p @ v)"
proof (induction s)
  case Nil
  then show ?case by auto
next
  case (Cons c cs)
  show ?case
  proof
    assume "spec_substring p (c # cs)"
    then consider "take (length p) (c # cs) = p" | "spec_substring p cs" by auto
    then show "\<exists>u v. c # cs = u @ p @ v"
    proof cases
      case 1
      then have "c # cs = [] @ p @ drop (length p) (c # cs)"
        by (metis append_Nil append_take_drop_id)
      then show ?thesis by blast
    next
      case 2
      then obtain u v where "cs = u @ p @ v" using Cons.IH by auto
      then have "c # cs = (c # u) @ p @ v" by simp
      then show ?thesis by blast
    qed
  next
    assume "\<exists>u v. c # cs = u @ p @ v"
    then obtain u v where uv: "c # cs = u @ p @ v" by auto
    show "spec_substring p (c # cs)"
    proof (cases u)
      case Nil
      then have "take (length p) (c # cs) = p" using uv by simp
      then show ?thesis by simp
    next
      case (Cons a u')
      then have "cs = u' @ p @ v" using uv by simp
      then have "spec_substring p cs" using Cons.IH by auto
      then show ?thesis by simp
    qed
  qed
qed

lemma ci_substring_empty: "ci_substring cf [] s"
  by (simp add: ci_substring_def spec_substring_empty)

lemma case_number_clause:
  assumes "plain_filter cnf"
  shows "list_all (holds cf r)
           (case cnf of None \<Rightarrow> []
            | Some s \<Rightarrow> if s = [] then [] else [CaseNumberILike (''%'' @ s @ ''%'')])
         = (case cnf of None \<Rightarrow> True | Some p \<Rightarrow> ci_substring cf p (row_number r))"
proof (cases cnf)
  case None
  then show ?thesis by simp
next
  case (Some p)
  then have pl: "list_all (\<lambda>c. \<not> like_meta c) p" using assms by (simp add: plain_filter_def)
  show ?thesis
  proof (cases "p = []")
    case True
    then show ?thesis using Some by (simp add: ci_substring_empty)
  next
    case False
    then show ?thesis using Some ilike_contains [OF pl] by simp
  qed
qed

lemma inn_clause:
  assumes "plain_filter innf"
  shows "list_all (holds cf r)
           (case innf of None \<Rightarrow> []
            | Some s \<Rightarrow> if s = [] then [] else [InnILike (''%'' @ s @ ''%'')])
         = (case innf of None \<Rightarrow> True | Some p \<Rightarrow> ci_substring cf p (row_inn r))"
proof (cases innf)
  case None
  then show ?thesis by simp
next
  case (Some p)
  then have pl: "list_all (\<lambda>c. \<not> like_meta c) p" using assms by (simp add: plain_filter_def)
  show ?thesis
  proof (cases "p = []")
    case True
    then show ?thesis using Some by (simp add: ci_substring_empty)
  next
    case False
    then show ?thesis using Some ilike_contains [OF pl] by simp
  qed
qed

lemma date_in_empty: "date_in [] = None"
  by (simp add: date_in_def)

lemma start_clause:
  assumes "date_filter_ok sd"
  shows "list_all (holds cf r)
           (case sd of None \<Rightarrow> [] | Some s \<Rightarrow> if s = [] then [] else [DateGe s])
         = (case sd of None \<Rightarrow> True
            | Some t \<Rightarrow> (case date_in t of None \<Rightarrow> t = [] | Some d \<Rightarrow> date_le d (row_date r)))"
    and "list_all cond_ok
           (case sd of None \<Rightarrow> [] | Some s \<Rightarrow> if s = [] then [] else [DateGe s])"
proof -
  show "list_all (holds cf r)
           (case sd of None \<Rightarrow> [] | Some s \<Rightarrow> if s = [] then [] else [DateGe s])
         = (case sd of None \<Rightarrow> True
            | Some t \<Rightarrow> (case date_in t of None \<Rightarrow> t = [] | Some d \<Rightarrow> date_le d (row_date r)))"
  proof (cases sd)
    case None
    then show ?thesis by simp
  next
    case (Some t)
    show ?thesis
    proof (cases "t = []")
      case True
      then show ?thesis using Some by (simp add: date_in_empty)
    next
      case False
      then show ?thesis using Some by (simp split: option.splits)
    qed
  qed
  show "list_all cond_ok
           (case sd of None \<Rightarrow> [] | Some s \<Rightarrow> if s = [] then [] else [DateGe s])"
  proof (cases sd)
    case None
    then show ?thesis by simp
  next
    case (Some t)
    then show ?thesis using assms by (simp add: date_filter_ok_def split: option.splits)
  qed
qed

lemma end_clause:
  assumes "date_filter_ok ed"
  shows "list_all (holds cf r)
           (case ed of None \<Rightarrow> [] | Some s \<Rightarrow> if s = [] then [] else [DateLe s])
         = (case ed of None \<Rightarrow> True
            | Some t \<Rightarrow> (case date_in t of None \<Rightarrow> t = [] | Some d \<Rightarrow> date_le (row_date r) d))"
    and "list_all cond_ok
           (case ed of None \<Rightarrow> [] | Some s \<Rightarrow> if s = [] then [] else [DateLe s])"
proof -
  show "list_all (holds cf r)
           (case ed of None \<Rightarrow> [] | Some s \<Rightarrow> if s = [] then [] else [DateLe s])
         = (case ed of None \<Rightarrow> True
            | Some t \<Rightarrow> (case date_in t of None \<Rightarrow> t = [] | Some d \<Rightarrow> date_le (row_date r) d))"
  proof (cases ed)
    case None
    then show ?thesis by simp
  next
    case (Some t)
    show ?thesis
    proof (cases "t = []")
      case True
      then show ?thesis using Some by (simp add: date_in_empty)
    next
      case False
      then show ?thesis using Some by (simp split: option.splits)
    qed
  qed
  show "list_all cond_ok
           (case ed of None \<Rightarrow> [] | Some s \<Rightarrow> if s = [] then [] else [DateLe s])"
  proof (cases ed)
    case None
    then show ?thesis by simp
  next
    case (Some t)
    then show ?thesis using assms by (simp add: date_filter_ok_def split: option.splits)
  qed
qed

lemma text_clauses_ok:
  "list_all cond_ok
     (case x of None \<Rightarrow> [] | Some s \<Rightarrow> if s = [] then [] else [CaseNumberILike (''%'' @ s @ ''%'')])"
  "list_all cond_ok
     (case x of None \<Rightarrow> [] | Some s \<Rightarrow> if s = [] then [] else [InnILike (''%'' @ s @ ''%'')])"
  by (cases x; simp)+

text \<open>
  What the query does on the inputs the docstring names, in every database locale: for
  filter texts without \<open>%\<close>, \<open>_\<close> and backslash, and date bounds written \<open>YYYY-MM-DD\<close>, the
  result is the rows of the store, in order, that satisfy every filter present, the text
  filters as case-insensitive substring matches and the dates as inclusive bounds.
\<close>

lemma plain_filters_select_matching_rows:
  assumes "plain_filter cnf" and "plain_filter innf" and "date_filter_ok sd" and "date_filter_ok ed"
  shows "get_filtered_cases_as_dicts cf NoFault st cnf innf sd ed
           = map row_to_dict (filter (spec_matches cf cnf innf sd ed) st)"
proof -
  have ok: "list_all cond_ok (build_query cnf innf sd ed)"
    unfolding build_query_def list_all_append
    using text_clauses_ok [of cnf] text_clauses_ok [of innf]
      start_clause(2) [OF assms(3)] end_clause(2) [OF assms(4)]
    by blast
  have m: "list_all (holds cf r) (build_query cnf innf sd ed) = spec_matches cf cnf innf sd ed r"
    for r
    unfolding build_query_def list_all_append spec_matches_def
    using case_number_clause [OF assms(1), of cf r] inn_clause [OF assms(2), of cf r]
      start_clause(1) [OF assms(3), of cf r] end_clause(1) [OF assms(4), of cf r]
    by blast
  show ?thesis
    using ok by (simp add: get_filtered_cases_as_dicts_def sql_select_def m)
qed

lemma january_2023_filter:
  "get_filtered_cases_as_dicts cf NoFault st None None (Some ''2023-01-01'') (Some ''2023-01-31'')
     = map row_to_dict (filter in_january_2023 st)"
proof -
  have d1: "date_in ''2023-01-01'' = Some \<lparr>d_year = 2023, d_month = 1, d_day = 1\<rparr>"
    by (simp add: db_eval)
  have d2: "date_in ''2023-01-31'' = Some \<lparr>d_year = 2023, d_month = 1, d_day = 31\<rparr>"
    by (simp add: db_eval)
  have q: "build_query None None (Some ''2023-01-01'') (Some ''2023-01-31'')
             = [DateGe ''2023-01-01'', DateLe ''2023-01-31'']"
    by (simp add: build_query_def)
  show ?thesis
    by (simp add: get_filtered_cases_as_dicts_def sql_select_def q d1 d2 in_january_2023_def [abs_def])
qed

lemmas like_eval = get_filtered_cases_as_dicts_def sql_select_def build_query_def ilike_def
  ascii_fold_def upper_letters_def lower_letters_def like_match.simps row_to_dict_def

lemma sample_store_filtered:
  "get_filtered_cases_as_dicts ascii_fold NoFault sample_store (Some ''a12'') None
     (Some ''2023-01-01'') (Some ''2023-01-31'')
     = [\<lparr>case_number = ''A12-34/2023'', case_date = ''2023-01-15'', inn = ''1234567890''\<rparr>]"
proof -
  have d1: "date_in ''2023-01-01'' = Some \<lparr>d_year = 2023, d_month = 1, d_day = 1\<rparr>"
    by (simp add: db_eval)
  have d2: "date_in ''2023-01-31'' = Some \<lparr>d_year = 2023, d_month = 1, d_day = 31\<rparr>"
    by (simp add: db_eval)
  have a: "plain_filter (Some ''a12'')" by (simp add: plain_filter_def like_meta_def)
  have b: "plain_filter None" by (simp add: plain_filter_def)
  have c: "date_filter_ok (Some ''2023-01-01'')" by (simp add: date_filter_ok_def d1)
  have d: "date_filter_ok (Some ''2023-01-31'')" by (simp add: date_filter_ok_def d2)
  have f1: "filter (spec_matches ascii_fold (Some ''a12'') None (Some ''2023-01-01'')
                      (Some ''2023-01-31'')) sample_store = [sample_store ! 0]"
    by (simp add: spec_matches_def ci_substring_def ascii_fold_def upper_letters_def
        lower_letters_def d1 d2 date_le_def sample_store_def)
  have r: "row_to_dict (sample_store ! 0)
      = \<lparr>case_number = ''A12-34/2023'', case_date = ''2023-01-15'', inn = ''1234567890''\<rparr>"
    by (simp add: sample_store_def row_to_dict_def isoformat_def pad2_def pad4_def digit_char_def)
  show ?thesis
    using plain_filters_select_matching_rows [OF a b c d, of ascii_fold sample_store]
    by (simp add: f1 r)
qed

text \<open>
  Claim C7 says that the case-number filter is a case-insensitive substring match.  The
  code wraps the filter text in \<open>%\<close> signs and binds it to \<open>ILIKE\<close> without escaping it, so
  the characters \<open>%\<close>, \<open>_\<close> and backslash of the filter act as pattern characters, against
  the docstring, which calls the filter a part of the case number or the whole of it.  In
  every database locale the filter \<open>_\<close> returns the row of case \<open>A1\<close>, in which \<open>_\<close> does not
  occur, and the filter \<open>A%3\<close> returns the row of case \<open>A12-34/2023\<close>.
\<close>

theorem underscore_filter_is_a_wildcard:
  "get_filtered_cases_as_dicts cf NoFault
      [\<lparr>row_number = ''A1'', row_date = \<lparr>d_year = 2023, d_month = 1, d_day = 15\<rparr>,
        row_inn = ''1234567890''\<rparr>]
      (Some ''_'') None None None
     = [\<lparr>case_number = ''A1'', case_date = ''2023-01-15'', inn = ''1234567890''\<rparr>]
   \<and> spec_substring ''_'' ''A1'' = False
   \<and> ci_substring ascii_fold ''_'' ''A1'' = False
   \<and> get_filtered_cases_as_dicts cf NoFault
      [\<lparr>row_number = ''A12-34/2023'', row_date = \<lparr>d_year = 2023, d_month = 1, d_day = 15\<rparr>,
        row_inn = ''1234567890''\<rparr>]
      (Some ''A%3'') None None None
     = [\<lparr>case_number = ''A12-34/2023'', case_date = ''2023-01-15'', inn = ''1234567890''\<rparr>]
   \<and> ci_substring ascii_fold ''A%3'' ''A12-34/2023'' = False"
  by (simp add: like_eval ci_substring_def isoformat_def pad2_def pad4_def digit_char_def)

section \<open>CSV round trip\<close>

lemma feed_step:
  "feed r (c # cs) =
     (case process_char c r of
        None \<Rightarrow> None
      | Some r1 \<Rightarrow> feed (if line_ends c cs then end_of_line r1 else r1) cs)"
  by simp

declare feed.simps(2) [simp del]

lemma feed_in_quoted_char:
  assumes "c \<noteq> CHR 0x22"
  shows "feed (reader_at IN_QUOTED_FIELD acc fs rs) (c # cs)
           = feed (reader_at IN_QUOTED_FIELD (acc @ [c]) fs rs) cs"
  using assms by (simp add: feed_step process_char_def add_char_def end_of_line_def)

lemma feed_in_quoted_doubled:
  "feed (reader_at IN_QUOTED_FIELD acc fs rs) (CHR 0x22 # CHR 0x22 # cs)
     = feed (reader_at IN_QUOTED_FIELD (acc @ [CHR 0x22]) fs rs) cs"
  by (simp add: feed_step process_char_def add_char_def line_ends_def)

lemma feed_in_quoted_close:
  "feed (reader_at IN_QUOTED_FIELD acc fs rs) (CHR 0x22 # cs)
     = feed (reader_at QUOTE_IN_QUOTED_FIELD acc fs rs) cs"
  by (simp add: feed_step process_char_def line_ends_def)

lemma csv_escape_quote: "csv_escape (CHR 0x22 # f) = CHR 0x22 # CHR 0x22 # csv_escape f"
  by (simp add: csv_escape_def)

lemma csv_escape_other: "c \<noteq> CHR 0x22 \<Longrightarrow> csv_escape (c # f) = c # csv_escape f"
  by (simp add: csv_escape_def)

lemma feed_quoted_body:
  "feed (reader_at IN_QUOTED_FIELD acc fs rs) (csv_escape f @ CHR 0x22 # rest)
     = feed (reader_at QUOTE_IN_QUOTED_FIELD (acc @ f) fs rs) rest"
proof (induction f arbitrary: acc)
  case Nil
  show ?case by (simp add: csv_escape_def feed_in_quoted_close)
next
  case (Cons c f)
  show ?case
  proof (cases "c = CHR 0x22")
    case True
    then show ?thesis
      using Cons.IH [of "acc @ [c]"] by (simp add: csv_escape_quote feed_in_quoted_doubled)
  next
    case False
    then show ?thesis
      using Cons.IH [of "acc @ [c]"] by (simp add: csv_escape_other feed_in_quoted_char)
  qed
qed

lemma feed_in_field_char:
  assumes "\<not> csv_special c"
  shows "feed (reader_at IN_FIELD acc fs rs) (c # cs) = feed (reader_at IN_FIELD (acc @ [c]) fs rs) cs"
  using assms
  by (simp add: feed_step process_char_def add_char_def csv_special_def is_newline_def line_ends_def)

lemma feed_plain_body:
  assumes "\<not> list_ex csv_special f"
  shows "feed (reader_at IN_FIELD acc fs rs) (f @ rest) = feed (reader_at IN_FIELD (acc @ f) fs rs) rest"
  using assms
proof (induction f arbitrary: acc)
  case Nil
  show ?case by simp
next
  case (Cons c f)
  then show ?case using Cons.IH [of "acc @ [c]"] by (simp add: feed_in_field_char)
qed

lemma feed_start_plain_char:
  assumes "\<not> csv_special c" and "m = START_FIELD \<or> m = START_RECORD"
  shows "feed (reader_at m [] fs rs) (c # cs) = feed (reader_at IN_FIELD [c] fs rs) cs"
  using assms
  by (auto simp add: feed_step process_char_def start_field_def add_char_def csv_special_def is_newline_def
      line_ends_def)

lemma feed_start_quote:
  assumes "m = START_FIELD \<or> m = START_RECORD"
  shows "feed (reader_at m [] fs rs) (CHR 0x22 # cs) = feed (reader_at IN_QUOTED_FIELD [] fs rs) cs"
  using assms
  by (auto simp add: feed_step process_char_def start_field_def is_newline_def line_ends_def)

text \<open>The state the reader is in after the text of a field, before the character that ends it.\<close>

lemma feed_field:
  assumes "m = START_FIELD \<or> m = START_RECORD"
  shows "\<exists>m'. (m' = m \<and> f = [] \<or> m' = IN_FIELD \<or> m' = QUOTE_IN_QUOTED_FIELD)
            \<and> (\<forall>rest. feed (reader_at m [] fs rs) (csv_field f @ rest)
                       = feed (reader_at m' f fs rs) rest)"
proof (cases "list_ex csv_special f")
  case True
  then have "feed (reader_at m [] fs rs) (csv_field f @ rest)
               = feed (reader_at QUOTE_IN_QUOTED_FIELD f fs rs) rest" for rest
    using feed_quoted_body [of "[]" fs rs f rest] assms
    by (simp add: csv_field_def feed_start_quote)
  then show ?thesis by blast
next
  case plain: False
  show ?thesis
  proof (cases f)
    case Nil
    then show ?thesis using plain by (intro exI [where x = m]) (simp add: csv_field_def)
  next
    case (Cons c f')
    then have c: "\<not> csv_special c" and f': "\<not> list_ex csv_special f'" using plain by simp_all
    have "feed (reader_at m [] fs rs) (csv_field f @ rest) = feed (reader_at IN_FIELD f fs rs) rest"
      for rest
      using plain Cons feed_plain_body [OF f', of "[c]" fs rs rest]
      by (simp add: csv_field_def feed_start_plain_char [OF c assms])
    then show ?thesis by blast
  qed
qed

lemma feed_comma:
  assumes "m = START_FIELD \<or> m = START_RECORD \<and> f = [] \<or> m = IN_FIELD \<or> m = QUOTE_IN_QUOTED_FIELD"
  shows "feed (reader_at m f fs rs) (CHR 0x2C # cs) = feed (reader_at START_FIELD [] (fs @ [f]) rs) cs"
  using assms
  by (auto simp add: feed_step process_char_def start_field_def save_field_def is_newline_def line_ends_def)

lemma feed_crlf:
  assumes "m = START_FIELD \<or> m = IN_FIELD \<or> m = QUOTE_IN_QUOTED_FIELD"
  shows "feed (reader_at m f fs rs) (CHR 0x0D # CHR 0x0A # cs)
           = feed (reader_at START_RECORD [] [] (rs @ [fs @ [f]])) cs"
  using assms
  by (auto simp add: feed_step process_char_def start_field_def save_field_def is_newline_def line_ends_def
      end_of_line_def emit_def)


lemma feed_field_comma:
  assumes "m = START_FIELD \<or> m = START_RECORD"
  shows "feed (reader_at m [] fs rs) (csv_field f @ CHR 0x2C # rest)
           = feed (reader_at START_FIELD [] (fs @ [f]) rs) rest"
proof -
  obtain m' where m': "m' = m \<and> f = [] \<or> m' = IN_FIELD \<or> m' = QUOTE_IN_QUOTED_FIELD"
    and f: "\<And>rest. feed (reader_at m [] fs rs) (csv_field f @ rest) = feed (reader_at m' f fs rs) rest"
    using feed_field [OF assms, of f fs rs] by blast
  have "m' = START_FIELD \<or> m' = START_RECORD \<and> f = [] \<or> m' = IN_FIELD \<or> m' = QUOTE_IN_QUOTED_FIELD"
    using m' assms by blast
  then show ?thesis using f [of "CHR 0x2C # rest"] by (simp add: feed_comma)
qed

lemma feed_field_crlf:
  "feed (reader_at START_FIELD [] fs rs) (csv_field f @ CHR 0x0D # CHR 0x0A # rest)
     = feed (reader_at START_RECORD [] [] (rs @ [fs @ [f]])) rest"
proof -
  obtain m' where m': "m' = START_FIELD \<and> f = [] \<or> m' = IN_FIELD \<or> m' = QUOTE_IN_QUOTED_FIELD"
    and f: "\<And>rest. feed (reader_at START_FIELD [] fs rs) (csv_field f @ rest)
               = feed (reader_at m' f fs rs) rest"
    using feed_field [of START_FIELD f fs rs] by blast
  have "m' = START_FIELD \<or> m' = IN_FIELD \<or> m' = QUOTE_IN_QUOTED_FIELD" using m' by blast
  then show ?thesis using f [of "CHR 0x0D # CHR 0x0A # rest"] by (simp add: feed_crlf)
qed

lemma csv_row_three:
  "csv_row [a, b, c] @ rest
     = csv_field a @ CHR 0x2C # csv_field b @ CHR 0x2C # csv_field c @ CHR 0x0D # CHR 0x0A # rest"
  by (simp add: csv_row_def)

lemma feed_row:
  "feed (reader_at START_RECORD [] [] rs) (csv_row [a, b, c] @ rest)
     = feed (reader_at START_RECORD [] [] (rs @ [[a, b, c]])) rest"
proof -
  have "feed (reader_at START_RECORD [] [] rs) (csv_row [a, b, c] @ rest)
      = feed (reader_at START_FIELD [] [a] rs)
          (csv_field b @ CHR 0x2C # csv_field c @ CHR 0x0D # CHR 0x0A # rest)"
    using feed_field_comma [of START_RECORD "[]" rs a] by (simp add: csv_row_three)
  also have "\<dots> = feed (reader_at START_FIELD [] [a, b] rs)
          (csv_field c @ CHR 0x0D # CHR 0x0A # rest)"
    using feed_field_comma [of START_FIELD "[a]" rs b] by simp
  also have "\<dots> = feed (reader_at START_RECORD [] [] (rs @ [[a, b, c]])) rest"
    using feed_field_crlf [of "[a, b]" rs c rest] by simp
  finally show ?thesis .
qed

lemma feed_rows:
  "feed (reader_at START_RECORD [] [] rs) (concat (map (\<lambda>c. csv_row (dict_values c)) cases))
     = Some (reader_at START_RECORD [] [] (rs @ map dict_values cases))"
proof (induction cases arbitrary: rs)
  case Nil
  show ?case by simp
next
  case (Cons c cases)
  have "feed (reader_at START_RECORD [] [] rs)
          (csv_row (dict_values c) @ concat (map (\<lambda>c. csv_row (dict_values c)) cases))
      = feed (reader_at START_RECORD [] [] (rs @ [dict_values c]))
          (concat (map (\<lambda>c. csv_row (dict_values c)) cases))"
    unfolding dict_values_def by (rule feed_row)
  then show ?case using Cons.IH [of "rs @ [dict_values c]"] by simp
qed

lemma csv_reader_csv_text:
  "csv_reader (csv_text cases) = Some (fieldnames # map dict_values cases)"
proof -
  have h: "feed (reader_at START_RECORD [] [] [])
             (csv_row fieldnames @ concat (map (\<lambda>c. csv_row (dict_values c)) cases))
         = feed (reader_at START_RECORD [] [] ([] @ [fieldnames]))
             (concat (map (\<lambda>c. csv_row (dict_values c)) cases))"
    unfolding fieldnames_def by (rule feed_row)
  show ?thesis
    using feed_rows [of "[fieldnames]" cases] h
    by (simp add: csv_reader_def csv_text_def new_reader_def at_eof_def)
qed

lemma all_some_tuples:
  "all_some (map as_tuple (filter (\<lambda>fs. fs \<noteq> []) (map dict_values cases)))
     = Some (map dict_tuple cases)"
  by (induction cases) (simp_all add: dict_values_def dict_tuple_def)

lemma read_back_csv_text: "read_back (csv_text cases) = Some (map dict_tuple cases)"
  by (simp add: read_back_def csv_reader_csv_text all_some_tuples)


lemma dict_tuple_row: "dict_tuple (row_to_dict r) = row_tuple r"
  by (simp add: dict_tuple_def row_to_dict_def row_tuple_def)

lemma csv_header: "csv_row fieldnames = ''case_number,case_date,inn'' @ [CHR 0x0D, CHR 0x0A]"
  by (simp add: csv_row_def fieldnames_def csv_field_def csv_special_def)

text \<open>
  Claim C8, as the code has it: for every non-empty list of persisted records, and with a
  database and a file system that serve the call, \<open>export_data_to_csv\<close> returns \<open>True\<close> and
  writes a file that starts with the header row \<open>case_number,case_date,inn\<close>; reading that
  file back gives the \<open>(case_number, case_date, taxpayer_id)\<close> tuples of the records, dates
  in ISO-8601, in the same order.
\<close>

theorem export_csv_round_trip:
  assumes "st \<noteq> []"
  shows "\<exists>body. export_data_to_csv NoFault True st file_path
            = (True, Some (''case_number,case_date,inn'' @ [CHR 0x0D, CHR 0x0A] @ body),
               [MsgExportCsv file_path, MsgCsvDone file_path])
          \<and> read_back (''case_number,case_date,inn'' @ [CHR 0x0D, CHR 0x0A] @ body)
              = Some (map row_tuple st)"
proof -
  let ?cases = "map row_to_dict st"
  let ?body = "concat (map (\<lambda>c. csv_row (dict_values c)) ?cases)"
  have t: "csv_text ?cases = ''case_number,case_date,inn'' @ [CHR 0x0D, CHR 0x0A] @ ?body"
    unfolding csv_text_def csv_header by simp
  have e: "export_data_to_csv NoFault True st file_path
            = (True, Some (csv_text ?cases), [MsgExportCsv file_path, MsgCsvDone file_path])"
    using assms by (simp add: export_data_to_csv_def get_all_cases_as_dicts_def)
  have r: "read_back (csv_text ?cases) = Some (map row_tuple st)"
    by (simp add: read_back_csv_text dict_tuple_row comp_def)
  show ?thesis using e r unfolding t by blast
qed

theorem export_csv_round_trip_witness:
  "quoting_store \<noteq> []
   \<and> (\<exists>body. export_data_to_csv NoFault True quoting_store ''cases.csv''
            = (True, Some (''case_number,case_date,inn'' @ [CHR 0x0D, CHR 0x0A] @ body),
               [MsgExportCsv ''cases.csv'', MsgCsvDone ''cases.csv''])
          \<and> read_back (''case_number,case_date,inn'' @ [CHR 0x0D, CHR 0x0A] @ body)
              = Some [([CHR 0x41, CHR 0x2C, CHR 0x22, CHR 0x31, CHR 0x22, CHR 0x0A, CHR 0x62],
                       ''2023-01-15'', ''12''),
                      (''B'', ''2022-12-31'', [])])"
proof -
  have n: "quoting_store \<noteq> []" by (simp add: quoting_store_def)
  have m: "map row_tuple quoting_store
      = [([CHR 0x41, CHR 0x2C, CHR 0x22, CHR 0x31, CHR 0x22, CHR 0x0A, CHR 0x62],
          ''2023-01-15'', ''12''),
         (''B'', ''2022-12-31'', [])]"
    by (simp add: quoting_store_def row_tuple_def isoformat_def pad2_def pad4_def digit_char_def)
  from export_csv_round_trip [OF n, of "''cases.csv''"] show ?thesis using n unfolding m by blast
qed

text \<open>
  The claim as the spec words it fails for the empty list: nothing is written, so there is
  no file to read back, and the export returns \<open>False\<close>.
\<close>

theorem empty_store_exports_no_file:
  "export_data_to_csv NoFault True [] ''cases.csv''
     = (False, None, [MsgExportCsv ''cases.csv'', MsgNoDataCsv])"
  by (simp add: export_data_to_csv_def get_all_cases_as_dicts_def)

end
